theory Spec2Isabelle
  imports Complex_Main "HOL-Library.Sublist"
begin

chapter \<open>An article scraper: fetching, extraction, plain text and paginated output\<close>

text \<open>
  The program fetches a web page, extracts metadata and an ordered stream of
  headings, paragraphs and images from the parsed document, and serialises that
  stream as plain text and as a paginated document.  This theory embeds the
  functions of \<^verbatim>\<open>webpage_scraper2.py\<close> that carry this logic:
  \<^verbatim>\<open>fetch_html\<close>, \<^verbatim>\<open>extract_more_elements\<close>, \<^verbatim>\<open>split_text_to_lines\<close>,
  \<^verbatim>\<open>create_pdf\<close> and the text composition inside \<^verbatim>\<open>ScraperGUI._worker\<close>.

  Modelling boundary.  Library calls are not re-implemented; their outcome is an
  input of the model:
  \<^item> the HTTP request, \<^verbatim>\<open>urlparse\<close> and the Playwright rendering are fields of a
    \<open>fetch_env\<close> record, each returning \<open>Inl\<close> when the call raises;
  \<^item> the HTML parser: extraction starts from the parsed tree (type \<open>page_element\<close>);
  \<^item> \<^verbatim>\<open>urljoin\<close>, the readability library, \<^verbatim>\<open>stringWidth\<close>, the registered font
    name and the download and decoding of an image are parameters.

  A Python \<^verbatim>\<open>str\<close> is a \<open>string\<close> whose characters stand for the code points
  U+0000 to U+00FF; \<open>length\<close> therefore counts code points of such a text, as
  \<^verbatim>\<open>len\<close> does.  A Python float is a real number, and every float operation of
  the renderer rounds its result by a function that is a parameter of the model.
\<close>

section \<open>Python string operations\<close>

text \<open>\<^verbatim>\<open>str.isspace\<close> on one character, for the code points below 256: the
  controls 9 to 13 and 28 to 31, the space, U+0085 and U+00A0.\<close>

definition isspace :: "char \<Rightarrow> bool" where
  "isspace c = (let n = (of_char c :: nat) in
     (9 \<le> n \<and> n \<le> 13) \<or> (28 \<le> n \<and> n \<le> 32) \<or> n = 133 \<or> n = 160)"

text \<open>\<^verbatim>\<open>s.strip()\<close>: leading and trailing whitespace removed.\<close>

definition py_strip :: "string \<Rightarrow> string" where
  "py_strip s = rev (dropWhile isspace (rev (dropWhile isspace s)))"

text \<open>\<^verbatim>\<open>s.split()\<close>: the maximal runs of non-whitespace characters, in order.
  \<open>split_from cur s\<close> scans \<open>s\<close> with the word read so far in \<open>cur\<close>.\<close>

fun split_from :: "string \<Rightarrow> string \<Rightarrow> string list" where
  "split_from cur [] = (if cur = [] then [] else [cur])"
| "split_from cur (c # cs) =
     (if isspace c then (if cur = [] then split_from [] cs else cur # split_from [] cs)
      else split_from (cur @ [c]) cs)"

definition py_split :: "string \<Rightarrow> string list" where
  "py_split s = split_from [] s"

text \<open>\<^verbatim>\<open>s.lower()\<close>: on the code points below 256 the capitals A to Z and
  U+00C0 to U+00DE (the multiplication sign U+00D7 apart) move up by 32.\<close>

definition lower_char :: "char \<Rightarrow> char" where
  "lower_char c = (let n = (of_char c :: nat) in
     if (65 \<le> n \<and> n \<le> 90) \<or> (192 \<le> n \<and> n \<le> 222 \<and> n \<noteq> 215) then char_of (n + 32) else c)"

definition py_lower :: "string \<Rightarrow> string" where
  "py_lower s = map lower_char s"

text \<open>\<^verbatim>\<open>s.upper()\<close>: the letters a to z and U+00E0 to U+00FE (the division sign
  U+00F7 apart) move down by 32 and the sharp s U+00DF becomes \<^verbatim>\<open>SS\<close>.  Python sends
  the micro sign U+00B5 and U+00FF to code points above 255; they are outside the
  modelled range and are left as they are.\<close>

definition upper_char :: "char \<Rightarrow> string" where
  "upper_char c = (let n = (of_char c :: nat) in
     if (97 \<le> n \<and> n \<le> 122) \<or> (224 \<le> n \<and> n \<le> 254 \<and> n \<noteq> 247) then [char_of (n - 32)]
     else if n = 223 then ''SS'' else [c])"

definition py_upper :: "string \<Rightarrow> string" where
  "py_upper s = concat (map upper_char s)"

text \<open>\<^verbatim>\<open>sep.join(parts)\<close>.\<close>

fun join :: "string \<Rightarrow> string list \<Rightarrow> string" where
  "join sep [] = []"
| "join sep [x] = x"
| "join sep (x # y # ys) = x @ sep @ join sep (y # ys)"

text \<open>\<^verbatim>\<open>sub in s\<close> for strings: \<open>sub\<close> occurs in \<open>s\<close> as a contiguous block.\<close>

fun contains :: "string \<Rightarrow> string \<Rightarrow> bool" where
  "contains sub [] = (sub = [])"
| "contains sub (c # cs) = (prefix sub (c # cs) \<or> contains sub cs)"

text \<open>\<^verbatim>\<open>a or b\<close> on values that may be \<^verbatim>\<open>None\<close> or an empty string: the first one
  that is a non-empty string.\<close>

definition truthy :: "string option \<Rightarrow> bool" where
  "truthy v = (case v of None \<Rightarrow> False | Some s \<Rightarrow> s \<noteq> [])"

definition or_empty :: "string option \<Rightarrow> string" where
  "or_empty v = (case v of None \<Rightarrow> [] | Some s \<Rightarrow> s)"

section \<open>Line wrapping: \<^verbatim>\<open>split_text_to_lines\<close>\<close>

text \<open>The loop over the words, with the committed \<open>lines\<close> and the line \<open>cur\<close>
  under construction as its state.  \<open>width\<close> is \<^verbatim>\<open>stringWidth\<close> at the font and
  size of the call.\<close>

fun wrap_loop :: "(string \<Rightarrow> real) \<Rightarrow> real \<Rightarrow> string list \<Rightarrow> string \<Rightarrow> string list
    \<Rightarrow> string list \<times> string" where
  "wrap_loop width max_width lines cur [] = (lines, cur)"
| "wrap_loop width max_width lines cur (w # ws) =
     (let candidate = py_strip (cur @ '' '' @ w) in
      if width candidate \<le> max_width then wrap_loop width max_width lines candidate ws
      else wrap_loop width max_width (if cur \<noteq> [] then lines @ [cur] else lines) w ws)"

definition split_text_to_lines ::
  "(string \<Rightarrow> string \<Rightarrow> nat \<Rightarrow> real) \<Rightarrow> string \<Rightarrow> string \<Rightarrow> nat \<Rightarrow> real \<Rightarrow> string list" where
  "split_text_to_lines stringWidth text fontname fontsize max_width =
     (case wrap_loop (\<lambda>s. stringWidth s fontname fontsize) max_width [] [] (py_split text) of
        (lines, cur) \<Rightarrow> if cur \<noteq> [] then lines @ [cur] else lines)"

section \<open>The page fetcher: \<^verbatim>\<open>fetch_html\<close>\<close>

text \<open>Exceptions are values.  Every library call that may raise returns
  \<open>error + 'a\<close>, with \<open>Inl\<close> for the exception.\<close>

datatype error = RequestException | ValueError | PlaywrightError

text \<open>What the outside world answers to one call of \<^verbatim>\<open>fetch_html\<close>:
  \<^item> \<open>session_get url timeout\<close>: \<^verbatim>\<open>resp.text\<close> and \<^verbatim>\<open>resp.url\<close> of the static
    request, or \<open>Inl\<close> when \<^verbatim>\<open>session.get\<close> or \<^verbatim>\<open>raise_for_status\<close> raises;
  \<^item> \<open>netloc url\<close>: \<^verbatim>\<open>urlparse(url).netloc\<close>, or \<open>Inl\<close> when it raises;
  \<^item> \<open>playwright url timeout\<close>: \<^verbatim>\<open>page.content()\<close> and \<^verbatim>\<open>page.url\<close> of the
    headless browser, or \<open>Inl\<close> when Playwright is not installed or any of its
    calls raises.\<close>

record fetch_env =
  session_get :: "string \<Rightarrow> nat \<Rightarrow> error + (string \<times> string)"
  netloc :: "string \<Rightarrow> error + string"
  playwright :: "string \<Rightarrow> nat \<Rightarrow> error + (string \<times> string)"

definition js_heavy_sites :: "string list" where
  "js_heavy_sites =
     [''tesla.com'', ''twitter.com'', ''instagram.com'', ''facebook.com'', ''youtube.com'']"

text \<open>The value of the variable \<^verbatim>\<open>need_render\<close> when the rendering step is
  reached.  \<open>text\<close> is \<open>None\<close> when the static request raised; \<open>domain\<close> is the
  outcome of \<^verbatim>\<open>urlparse(url).netloc\<close>, whose exception the source passes over.\<close>

definition need_render :: "string option \<Rightarrow> error + string \<Rightarrow> bool" where
  "need_render text domain =
     (let need0 = (case text of
                     None \<Rightarrow> True
                   | Some t \<Rightarrow>
                       if length (py_strip t) < 800 then True
                       else if contains ''<noscript'' (py_lower t)
                               \<or> contains ''javascript required'' (py_lower t) then True
                       else False)
      in case domain of
           Inl e \<Rightarrow> need0
         | Inr d \<Rightarrow> if list_ex (\<lambda>s. contains s (py_lower d)) js_heavy_sites then True else need0)"

definition fetch_html :: "fetch_env \<Rightarrow> string \<Rightarrow> nat \<Rightarrow> bool \<Rightarrow> error + (string \<times> string)" where
  "fetch_html env url timeout try_playwright_if_needed =
     (let (text, final_url) = (case session_get env url timeout of
                                 Inr (t, u) \<Rightarrow> (Some t, u)
                               | Inl e \<Rightarrow> (None, url));
          static = Inr (or_empty text, if final_url \<noteq> [] then final_url else url)
      in if need_render text (netloc env url) \<and> try_playwright_if_needed then
           (case playwright env url timeout of
              Inr (rendered, final) \<Rightarrow>
                if rendered \<noteq> [] \<and> 200 < length (py_strip rendered) then Inr (rendered, final)
                else static
            | Inl e \<Rightarrow> static)
         else static)"

text \<open>The test of the rendering step, \<^verbatim>\<open>need_render and try_playwright_if_needed\<close>:
  the fallback is triggered when it holds.  \<open>static_text\<close> is the variable
  \<^verbatim>\<open>text\<close> after the static request.\<close>

definition static_text :: "fetch_env \<Rightarrow> string \<Rightarrow> nat \<Rightarrow> string option" where
  "static_text env url timeout = (case session_get env url timeout of
       Inr (t, u) \<Rightarrow> Some t
     | Inl e \<Rightarrow> None)"

definition fallback_triggered :: "fetch_env \<Rightarrow> string \<Rightarrow> nat \<Rightarrow> bool \<Rightarrow> bool" where
  "fallback_triggered env url timeout try_playwright_if_needed =
     (need_render (static_text env url timeout) (netloc env url) \<and> try_playwright_if_needed)"

text \<open>The decision policy as the program has it, for a fetched markup string:
  empty, or trimmed length below 800 characters, or one of the two markers in the
  lower-cased markup, or a listed domain somewhere inside the lower-cased network
  location.\<close>

definition netloc_has_listed :: "error + string \<Rightarrow> bool" where
  "netloc_has_listed domain = (case domain of
       Inl e \<Rightarrow> False
     | Inr d \<Rightarrow> \<exists>s \<in> set js_heavy_sites. contains s (py_lower d))"

definition has_script_marker :: "string \<Rightarrow> bool" where
  "has_script_marker t =
     (contains ''<noscript'' (py_lower t) \<or> contains ''javascript required'' (py_lower t))"

definition needs_rendered_fetch_spec :: "string \<Rightarrow> error + string \<Rightarrow> bool" where
  "needs_rendered_fetch_spec t domain =
     (t = [] \<or> length (py_strip t) < 800 \<or> has_script_marker t \<or> netloc_has_listed domain)"

text \<open>The words of the specification that the program does not follow: the
  length of a markup string in bytes (of its UTF-8 encoding: one byte below
  U+0080, two from there to U+00FF), the host of a network location (what follows
  the last \<^verbatim>\<open>@\<close>, up to the port), and a host that matches the list of domains
  (a listed domain or a subdomain of one).\<close>

definition utf8_length :: "string \<Rightarrow> nat" where
  "utf8_length s = sum_list (map (\<lambda>c. if (of_char c :: nat) < 128 then 1 else 2) s)"

definition hostname_of :: "string \<Rightarrow> string" where
  "hostname_of n =
     py_lower (takeWhile (\<lambda>c. c \<noteq> CHR '':'') (rev (takeWhile (\<lambda>c. c \<noteq> CHR ''@'') (rev n))))"

definition ends_with :: "string \<Rightarrow> string \<Rightarrow> bool" where
  "ends_with s suf = (length suf \<le> length s \<and> drop (length s - length suf) s = suf)"

definition host_listed :: "string \<Rightarrow> bool" where
  "host_listed h = (\<exists>d \<in> set js_heavy_sites. h = d \<or> ends_with h (''.'' @ d))"

text \<open>Concrete environments: a static request that raises while the browser
  renders a page, one that raises with no browser, and one that answers a given
  markup under a given network location, with no browser.  Concrete markup: 2000
  spaces, 50 letters, 2000 letters, and 500 times the letter U+00E9.\<close>

definition rendered_page :: string where
  "rendered_page = replicate 201 (CHR ''x'')"

definition env_static_fails :: fetch_env where
  "env_static_fails = \<lparr> session_get = (\<lambda>u t. Inl RequestException),
                        netloc = (\<lambda>u. Inr ''example.org''),
                        playwright = (\<lambda>u t. Inr (rendered_page, ''https://example.org/r'')) \<rparr>"

definition env_offline :: fetch_env where
  "env_offline = \<lparr> session_get = (\<lambda>u t. Inl RequestException),
                   netloc = (\<lambda>u. Inr ''example.org''),
                   playwright = (\<lambda>u t. Inl PlaywrightError) \<rparr>"

definition static_env :: "string \<Rightarrow> string \<Rightarrow> fetch_env" where
  "static_env markup n = \<lparr> session_get = (\<lambda>u t. Inr (markup, u)),
                           netloc = (\<lambda>u. Inr n),
                           playwright = (\<lambda>u t. Inl PlaywrightError) \<rparr>"

definition blank_markup :: string where
  "blank_markup = replicate 2000 (CHR '' '')"

definition short_markup :: string where
  "short_markup = replicate 50 (CHR ''a'')"

definition plain_markup :: string where
  "plain_markup = replicate 2000 (CHR ''a'')"

definition accented_markup :: string where
  "accented_markup = replicate 500 (CHR 0xE9)"

section \<open>The parsed document\<close>

text \<open>The tree that the HTML parser hands to the program: text strings, other
  strings that \<^verbatim>\<open>get_text\<close> passes over (comments and the like), and elements
  with a tag name, attributes in document order and children.  The root of a
  parsed document is an element named \<^verbatim>\<open>[document]\<close>.\<close>

datatype page_element = Text string | Comment string | Elem string "(string \<times> string) list" "page_element list"

text \<open>\<^verbatim>\<open>el.descendants\<close>: every node below \<open>el\<close> in document order, here paired
  with its parent (\<^verbatim>\<open>el.parent\<close>).\<close>

fun descendants_with_parent :: "page_element \<Rightarrow> (page_element \<times> page_element) list" where
  "descendants_with_parent (Elem n a cs) =
     concat (map (\<lambda>c. (c, Elem n a cs) # descendants_with_parent c) cs)"
| "descendants_with_parent (Text s) = []"
| "descendants_with_parent (Comment s) = []"

definition descendants :: "page_element \<Rightarrow> page_element list" where
  "descendants el = map fst (descendants_with_parent el)"

text \<open>\<^verbatim>\<open>getattr(el, "name", None)\<close> and \<^verbatim>\<open>el.get(key)\<close>.\<close>

fun tag_name :: "page_element \<Rightarrow> string option" where
  "tag_name (Elem n a cs) = Some n"
| "tag_name (Text s) = None"
| "tag_name (Comment s) = None"

fun get_attr :: "page_element \<Rightarrow> string \<Rightarrow> string option" where
  "get_attr (Elem n a cs) key = map_of a key"
| "get_attr (Text s) key = None"
| "get_attr (Comment s) key = None"

text \<open>\<^verbatim>\<open>el.get_text(separator=sep, strip=True)\<close>: the text strings below \<open>el\<close>, each
  stripped, the empty ones dropped, joined by \<open>sep\<close>.\<close>

fun text_of :: "page_element \<Rightarrow> string option" where
  "text_of (Text s) = Some s"
| "text_of (Comment s) = None"
| "text_of (Elem n a cs) = None"

definition stripped_strings :: "page_element \<Rightarrow> string list" where
  "stripped_strings el =
     filter (\<lambda>s. s \<noteq> []) (map py_strip (List.map_filter text_of (descendants el)))"

definition get_text :: "string \<Rightarrow> page_element \<Rightarrow> string" where
  "get_text sep el = join sep (stripped_strings el)"

text \<open>\<^verbatim>\<open>el.string\<close>: the only child when it is a string, the \<^verbatim>\<open>.string\<close> of the only
  child when that is an element, \<^verbatim>\<open>None\<close> otherwise.\<close>

fun string_of :: "page_element \<Rightarrow> string option" where
  "string_of (Elem n a [Text s]) = Some s"
| "string_of (Elem n a [Comment s]) = Some s"
| "string_of (Elem n a [Elem m b cs]) = string_of (Elem m b cs)"
| "string_of (Elem n a cs) = None"
| "string_of (Text s) = Some s"
| "string_of (Comment s) = Some s"

text \<open>\<^verbatim>\<open>soup.find(name)\<close>, \<^verbatim>\<open>soup.find_all(names)\<close> and
  \<^verbatim>\<open>soup.find("meta", {attr: key})\<close>: the first, or all, matching elements below
  the given element in document order.\<close>

definition find_tag :: "page_element \<Rightarrow> string \<Rightarrow> page_element option" where
  "find_tag soup nm = List.find (\<lambda>d. tag_name d = Some nm) (descendants soup)"

definition find_all :: "page_element \<Rightarrow> string list \<Rightarrow> page_element list" where
  "find_all soup nms =
     filter (\<lambda>d. case tag_name d of None \<Rightarrow> False | Some n \<Rightarrow> n \<in> set nms) (descendants soup)"

definition find_meta_by :: "page_element \<Rightarrow> string \<Rightarrow> string \<Rightarrow> page_element option" where
  "find_meta_by soup attr key =
     List.find (\<lambda>d. tag_name d = Some ''meta'' \<and> get_attr d attr = Some key) (descendants soup)"

text \<open>\<^verbatim>\<open>soup.find("meta", {"name": key}) or soup.find("meta", {"property": key})\<close>:
  an element that was found is true whatever it holds, so the second search runs
  only when the first finds nothing.\<close>

definition find_meta :: "page_element \<Rightarrow> string \<Rightarrow> page_element option" where
  "find_meta soup key = (case find_meta_by soup ''name'' key of
       Some tag \<Rightarrow> Some tag
     | None \<Rightarrow> find_meta_by soup ''property'' key)"

text \<open>The test \<^verbatim>\<open>tag and tag.get("content")\<close>: the content of the tag found for
  \<open>key\<close> when it is a non-empty string.\<close>

definition meta_content :: "page_element \<Rightarrow> string \<Rightarrow> string option" where
  "meta_content soup key = (case find_meta soup key of
       None \<Rightarrow> None
     | Some tag \<Rightarrow> (case get_attr tag ''content'' of
                     None \<Rightarrow> None
                   | Some c \<Rightarrow> if c \<noteq> [] then Some c else None))"

text \<open>The loops \<^verbatim>\<open>for key in (...)\<close> of the author and the date: the stripped
  content of the first key whose tag has content; the loop breaks there.\<close>

fun first_meta_content :: "page_element \<Rightarrow> string list \<Rightarrow> string option" where
  "first_meta_content soup [] = None"
| "first_meta_content soup (key # keys) = (case meta_content soup key of
       Some c \<Rightarrow> Some (py_strip c)
     | None \<Rightarrow> first_meta_content soup keys)"

text \<open>The four selectors of the author fallback, as \<^verbatim>\<open>select_one\<close> answers them.
  The parser keeps \<^verbatim>\<open>class\<close> on every element, and \<^verbatim>\<open>rel\<close> on \<^verbatim>\<open>a\<close> and
  \<^verbatim>\<open>link\<close>, as a list of whitespace-separated tokens.  \<^verbatim>\<open>[rel=author]\<close> and
  \<^verbatim>\<open>[itemprop=author]\<close> match the attribute, a token list joined by single spaces,
  against the pattern \<^verbatim>\<open>^author$\<close>, which accepts the value and the value
  followed by one newline; \<^verbatim>\<open>.author\<close> looks for the token.\<close>

definition matches_exactly :: "string \<Rightarrow> string \<Rightarrow> bool" where
  "matches_exactly v val = (v = val \<or> v = val @ [CHR ''\<newline>''])"

definition attr_equals :: "string \<Rightarrow> string \<Rightarrow> page_element \<Rightarrow> bool" where
  "attr_equals key val d = (case tag_name d of
       None \<Rightarrow> False
     | Some n \<Rightarrow> (case get_attr d key of
                   None \<Rightarrow> False
                 | Some v \<Rightarrow> if key = ''rel'' \<and> n \<in> {''a'', ''link''}
                             then matches_exactly (join '' '' (py_split v)) val
                             else matches_exactly v val))"

definition has_class :: "string \<Rightarrow> page_element \<Rightarrow> bool" where
  "has_class cls d = (case get_attr d ''class'' of
       None \<Rightarrow> False
     | Some v \<Rightarrow> cls \<in> set (py_split v))"

definition select_author :: "page_element \<Rightarrow> page_element option" where
  "select_author soup =
     (case List.find (attr_equals ''rel'' ''author'') (descendants soup) of
        Some d \<Rightarrow> Some d
      | None \<Rightarrow>
     (case List.find (has_class ''author'') (descendants soup) of
        Some d \<Rightarrow> Some d
      | None \<Rightarrow>
     (case List.find (has_class ''byline'') (descendants soup) of
        Some d \<Rightarrow> Some d
      | None \<Rightarrow> List.find (attr_equals ''itemprop'' ''author'') (descendants soup))))"

section \<open>Extraction: \<^verbatim>\<open>extract_more_elements\<close>\<close>

text \<open>The node stream holds the tuples \<^verbatim>\<open>("heading", text, tag)\<close>,
  \<^verbatim>\<open>("paragraph", text, None)\<close> and \<^verbatim>\<open>("image", url, caption)\<close>.\<close>

datatype node = Heading string string | Paragraph string | Image string string

text \<open>The dictionary \<^verbatim>\<open>out\<close> that the function returns.\<close>

record article =
  title :: string
  author :: string
  date :: string
  tags :: string
  lead_image :: string
  nodes :: "node list"

text \<open>\<^verbatim>\<open>img.get("src") or img.get("data-src") or img.get("data-original")\<close>, when
  the result is a non-empty string.\<close>

definition first_src :: "page_element \<Rightarrow> string option" where
  "first_src el =
     (if truthy (get_attr el ''src'') then get_attr el ''src''
      else if truthy (get_attr el ''data-src'') then get_attr el ''data-src''
      else if truthy (get_attr el ''data-original'') then get_attr el ''data-original''
      else None)"

definition extract_title :: "page_element \<Rightarrow> string" where
  "extract_title soup = (case find_tag soup ''title'' of
       None \<Rightarrow> []
     | Some t \<Rightarrow> (case string_of t of
                   None \<Rightarrow> []
                 | Some s \<Rightarrow> if s \<noteq> [] then py_strip s else []))"

definition extract_author :: "page_element \<Rightarrow> string" where
  "extract_author soup =
     (let author = first_meta_content soup
                     [''author'', ''article:author'', ''og:article:author'', ''byline'']
      in if truthy author then or_empty author
         else (case select_author soup of
                 Some sel \<Rightarrow> get_text [] sel
               | None \<Rightarrow> or_empty author))"

definition extract_date :: "page_element \<Rightarrow> string" where
  "extract_date soup =
     (let date = first_meta_content soup
                   [''article:published_time'', ''pubdate'', ''publishdate'', ''date'']
      in if truthy date then or_empty date
         else (case find_tag soup ''time'' of
                 None \<Rightarrow> or_empty date
               | Some time_tag \<Rightarrow>
                   if truthy (get_attr time_tag ''datetime'')
                   then py_strip (or_empty (get_attr time_tag ''datetime''))
                   else get_text [] time_tag))"

definition extract_tags :: "page_element \<Rightarrow> string" where
  "extract_tags soup = (case find_meta_by soup ''name'' ''keywords'' of
       None \<Rightarrow> []
     | Some tagm \<Rightarrow> if truthy (get_attr tagm ''content'')
                    then py_strip (or_empty (get_attr tagm ''content'')) else [])"

text \<open>The lead image.  \<^verbatim>\<open>urljoin\<close> is outside every \<^verbatim>\<open>try\<close>: when it raises,
  the extraction raises.\<close>

fun first_image :: "(string \<Rightarrow> string \<Rightarrow> error + string) \<Rightarrow> string \<Rightarrow> page_element list
    \<Rightarrow> error + string option" where
  "first_image urljoin base_url [] = Inr None"
| "first_image urljoin base_url (img # imgs) = (case first_src img of
       None \<Rightarrow> first_image urljoin base_url imgs
     | Some src \<Rightarrow> (case urljoin base_url src of
                      Inl e \<Rightarrow> Inl e
                    | Inr best \<Rightarrow> Inr (Some best)))"

definition extract_lead_image :: "(string \<Rightarrow> string \<Rightarrow> error + string) \<Rightarrow> string \<Rightarrow> page_element
    \<Rightarrow> error + string" where
  "extract_lead_image urljoin base_url soup =
     (let og = (case find_meta_by soup ''property'' ''og:image'' of
                  Some t \<Rightarrow> Some t
                | None \<Rightarrow> find_meta_by soup ''name'' ''og:image'')
      in case og of
           Some t \<Rightarrow>
             if truthy (get_attr t ''content'')
             then urljoin base_url (or_empty (get_attr t ''content''))
             else (case first_image urljoin base_url (take 30 (find_all soup [''img''])) of
                     Inl e \<Rightarrow> Inl e
                   | Inr best \<Rightarrow> Inr (or_empty best))
         | None \<Rightarrow>
             (case first_image urljoin base_url (take 30 (find_all soup [''img''])) of
                Inl e \<Rightarrow> Inl e
              | Inr best \<Rightarrow> Inr (or_empty best)))"

text \<open>The heuristic choice of the main content: the first \<^verbatim>\<open>article\<close> or
  \<^verbatim>\<open>main\<close>; else the \<^verbatim>\<open>div\<close> or \<^verbatim>\<open>section\<close> with the longest text, the first
  one among equals, starting from \<^verbatim>\<open>soup.body or soup\<close> with length 0.\<close>

fun longest_text :: "page_element list \<Rightarrow> page_element \<Rightarrow> nat \<Rightarrow> page_element" where
  "longest_text [] best max_len = best"
| "longest_text (c # cs) best max_len =
     (let txt = get_text '' '' c in
      if max_len < length txt then longest_text cs c (length txt)
      else longest_text cs best max_len)"

definition heuristic_content :: "page_element \<Rightarrow> page_element" where
  "heuristic_content soup =
     (case find_tag soup ''article'' of
        Some c \<Rightarrow> c
      | None \<Rightarrow>
     (case find_tag soup ''main'' of
        Some c \<Rightarrow> c
      | None \<Rightarrow>
          longest_text (find_all soup [''div'', ''section''])
            (case find_tag soup ''body'' of Some b \<Rightarrow> b | None \<Rightarrow> soup) 0))"

text \<open>The caption of an image: the text of the first \<^verbatim>\<open>figcaption\<close> below the
  image's parent, else the \<^verbatim>\<open>alt\<close> attribute, else the empty string.\<close>

definition image_caption :: "page_element \<Rightarrow> page_element \<Rightarrow> string" where
  "image_caption el parent =
     (let caption = (case find_tag parent ''figcaption'' of
                       Some cap \<Rightarrow> get_text [] cap
                     | None \<Rightarrow> [])
      in if caption \<noteq> [] then caption else or_empty (get_attr el ''alt''))"

text \<open>The loop \<^verbatim>\<open>for el in main_content.descendants\<close>, appending to the list \<open>acc\<close> (the source's \<^verbatim>\<open>nodes\<close>).\<close>

fun build_nodes :: "(string \<Rightarrow> string \<Rightarrow> error + string) \<Rightarrow> string \<Rightarrow> (page_element \<times> page_element) list
    \<Rightarrow> node list \<Rightarrow> error + node list" where
  "build_nodes urljoin base_url [] acc = Inr acc"
| "build_nodes urljoin base_url ((el, parent) # rest) acc =
     (case tag_name el of
        None \<Rightarrow> build_nodes urljoin base_url rest acc
      | Some name \<Rightarrow>
          if name \<in> {''h1'', ''h2'', ''h3'', ''h4''} then
            (let t = get_text [] el in
             if t \<noteq> [] then build_nodes urljoin base_url rest (acc @ [Heading t name])
             else build_nodes urljoin base_url rest acc)
          else if name \<in> {''p'', ''blockquote'', ''li''} then
            (let t = get_text [] el in
             if t \<noteq> [] \<and> 10 < length t
             then build_nodes urljoin base_url rest (acc @ [Paragraph t])
             else build_nodes urljoin base_url rest acc)
          else if name = ''img'' then
            (case first_src el of
               None \<Rightarrow> build_nodes urljoin base_url rest acc
             | Some src \<Rightarrow>
                 (case urljoin base_url src of
                    Inl e \<Rightarrow> Inl e
                  | Inr absu \<Rightarrow>
                      build_nodes urljoin base_url rest
                        (acc @ [Image absu (image_caption el parent)])))
          else build_nodes urljoin base_url rest acc)"

text \<open>The whole function.  \<open>soup\<close> is the parsed markup.  \<open>readability\<close> is
  \<open>Some (content, title_r)\<close> when the readability library is installed and
  returns a summary, parsed to \<open>content\<close>, and the short title \<open>title_r\<close>; it is
  \<open>None\<close> when the library is absent or raises.\<close>

definition extract_more_elements :: "(string \<Rightarrow> string \<Rightarrow> error + string)
    \<Rightarrow> (page_element \<times> string) option \<Rightarrow> page_element \<Rightarrow> string \<Rightarrow> error + article" where
  "extract_more_elements urljoin readability soup base_url =
     (case extract_lead_image urljoin base_url soup of
        Inl e \<Rightarrow> Inl e
      | Inr lead \<Rightarrow>
          (let title0 = extract_title soup;
               title1 = (case readability of
                           Some (content, title_r) \<Rightarrow> if title_r \<noteq> [] then title_r else title0
                         | None \<Rightarrow> title0);
               main_content = (case readability of
                                 Some (content, title_r) \<Rightarrow> content
                               | None \<Rightarrow> heuristic_content soup)
           in case build_nodes urljoin base_url (descendants_with_parent main_content) [] of
                Inl e \<Rightarrow> Inl e
              | Inr ns \<Rightarrow>
                  Inr \<lparr> title = title1, author = extract_author soup, date = extract_date soup,
                        tags = extract_tags soup, lead_image = lead, nodes = ns \<rparr>))"

text \<open>Concrete inputs: \<^verbatim>\<open>urljoin\<close> on a reference that is already an absolute URL
  answers the reference; the document parsed from empty markup; three documents with
  an \<^verbatim>\<open>article:author\<close> tag and a byline (one with an \<^verbatim>\<open>author\<close> tag as well,
  one whose tag content ends with a space, one whose tag content is a single
  space); a small article.\<close>

definition urljoin_absolute :: "string \<Rightarrow> string \<Rightarrow> error + string" where
  "urljoin_absolute base_url ref = Inr ref"

definition empty_soup :: page_element where
  "empty_soup = Elem ''[document]'' [] []"

definition two_authors_doc :: page_element where
  "two_authors_doc = Elem ''[document]'' []
     [Elem ''html'' []
        [Elem ''head'' []
           [Elem ''meta'' [(''name'', ''author''), (''content'', ''Alice'')] [],
            Elem ''meta'' [(''property'', ''article:author''), (''content'', ''Bob'')] []],
         Elem ''body'' []
           [Elem ''div'' [(''class'', ''byline'')] [Text ''Carol'']]]]"

definition byline_doc :: page_element where
  "byline_doc = Elem ''[document]'' []
     [Elem ''html'' []
        [Elem ''head'' []
           [Elem ''meta'' [(''property'', ''article:author''), (''content'', ''Bob '')] []],
         Elem ''body'' []
           [Elem ''div'' [(''class'', ''byline'')] [Text ''Carol'']]]]"

definition blank_author_doc :: page_element where
  "blank_author_doc = Elem ''[document]'' []
     [Elem ''html'' []
        [Elem ''head'' []
           [Elem ''meta'' [(''property'', ''article:author''), (''content'', '' '')] []],
         Elem ''body'' []
           [Elem ''div'' [(''class'', ''byline'')] [Text ''Carol'']]]]"

definition small_article :: page_element where
  "small_article = Elem ''[document]'' []
     [Elem ''html'' []
        [Elem ''body'' []
           [Elem ''article'' []
              [Elem ''h1'' [] [Text '' News ''],
               Elem ''p'' [] [Text ''Menu''],
               Elem ''p'' [] [Text ''A paragraph that is long '', Elem ''b'' [] [Text ''enough'']],
               Elem ''h2'' [] [Text ''   '']]]]]"

section \<open>The paginated renderer: \<^verbatim>\<open>create_pdf\<close>\<close>

text \<open>The program draws on a reportlab canvas.  The canvas keeps a current font,
  which \<^verbatim>\<open>setFont\<close> changes; \<^verbatim>\<open>showPage\<close> closes the page and forgets the font,
  so that a new page starts in the canvas's initial font, Helvetica at 12 points.
  The program itself keeps one variable, the cursor \<^verbatim>\<open>y\<close>.\<close>

type_synonym font = "string \<times> nat"

definition initial_font :: font where
  "initial_font = (''Helvetica'', 12)"

text \<open>The renderer is observed through the calls it makes on the canvas.
  \<^item> \<open>SetFont\<close>: a call of \<^verbatim>\<open>setFont\<close>, with the font it sets.
  \<^item> \<open>Line\<close>: a call of \<^verbatim>\<open>drawString\<close>, with the font the canvas has at the
    call, the page on which that font was set, the left edge, the cursor and the
    page before the page-break test, the page and the height at which the string
    is drawn, and the cursor after the statement that follows the call.
  \<^item> \<open>Picture\<close>: a call of \<^verbatim>\<open>drawImage\<close>, with the pixel size of the image,
    cursor and page before the test, the page, position, width and height of the
    drawing, and the cursor after \<^verbatim>\<open>y -= display_h + 6\<close>.
  \<^item> \<open>Dropped\<close>: an image branch that raises after the page-break test, in
    \<^verbatim>\<open>ImageReader\<close> or in \<^verbatim>\<open>drawImage\<close>; nothing is drawn, but a page break made
    by the test stays.
  \<^item> \<open>Gap\<close>: the statement that closes a block by moving the cursor down.
  A page number that grows by one stands for a call of \<^verbatim>\<open>showPage\<close>.\<close>

datatype kind = TitleLine | MetaLine | HeadingLine string | ParagraphLine | CaptionLine

datatype event =
    SetFont (f_kind: kind) (f_font: font)
  | Line (lkind: kind) (lfont: font) (set_page: nat) (lx: real) (y_in: real) (page_in: nat)
         (page_at: nat) (y_draw: real) (y_out: real) (ltext: string)
  | Picture (p_url: string) (p_iw: nat) (p_ih: nat) (p_y_in: real) (p_page_in: nat)
         (p_page_at: nat) (p_x: real) (p_y: real) (p_w: real) (p_h: real) (p_y_out: real)
  | Dropped (d_url: string) (d_y_in: real) (d_page_in: nat) (d_page_at: nat) (d_y_out: real)
  | Gap (gkind: kind) (g_in: real) (g_out: real)

text \<open>The state: the log, the cursor, the number of pages closed so far, the
  font of the canvas and the page on which it was set.\<close>

record rstate =
  events :: "event list"
  y :: real
  page :: nat
  cfont :: font
  font_page :: nat

text \<open>What the renderer is given besides the article:
  \<^item> the page size;
  \<^item> \<open>fl\<close>, the rounding of the result of one float operation: every sum,
    difference, product and quotient that the program computes in floats is
    rounded by it;
  \<^item> the width of a string in a font at a size, and the name of the registered
    font;
  \<^item> for each image URL the outcome of download, \<^verbatim>\<open>Image.open\<close> and drawing:
    \<open>NoImage\<close> when the download or the opening fails, \<open>Undrawable iw ih\<close> when
    the image opens with that pixel size but \<^verbatim>\<open>ImageReader\<close> or \<^verbatim>\<open>drawImage\<close>
    raises, \<open>Decoded iw ih\<close> when it is drawn.\<close>

datatype image_result = NoImage | Undrawable nat nat | Decoded nat nat

record render_env =
  page_w :: real
  page_h :: real
  fl :: "real \<Rightarrow> real"
  stringWidth :: "string \<Rightarrow> string \<Rightarrow> nat \<Rightarrow> real"
  fontname :: string
  load_image :: "string \<Rightarrow> image_result"

definition margin :: real where
  "margin = 28"

definition usable_w :: "render_env \<Rightarrow> real" where
  "usable_w env = fl env (page_w env - 2 * margin)"

definition top_y :: "render_env \<Rightarrow> real" where
  "top_y env = fl env (page_h env - margin)"

definition text_lines :: "render_env \<Rightarrow> string \<Rightarrow> nat \<Rightarrow> string list" where
  "text_lines env txt sz =
     split_text_to_lines (stringWidth env) txt (fontname env) sz (usable_w env)"

text \<open>\<^verbatim>\<open>c.setFont(fontname, size)\<close>.\<close>

definition set_font :: "render_env \<Rightarrow> kind \<Rightarrow> nat \<Rightarrow> rstate \<Rightarrow> rstate" where
  "set_font env k sz st =
     st \<lparr> events := events st @ [SetFont k (fontname env, sz)],
          cfont := (fontname env, sz), font_page := page st \<rparr>"

text \<open>\<^verbatim>\<open>c.showPage(); y = PAGE_H - margin\<close>.\<close>

definition break_page :: "render_env \<Rightarrow> rstate \<Rightarrow> rstate" where
  "break_page env st = st \<lparr> y := top_y env, page := page st + 1, cfont := initial_font \<rparr>"

text \<open>One pass of a line loop: break the page when the cursor is below the
  threshold, draw, move the cursor down by \<open>advance\<close>.\<close>

definition draw_line :: "render_env \<Rightarrow> kind \<Rightarrow> real \<Rightarrow> real \<Rightarrow> real \<Rightarrow> string \<Rightarrow> rstate
    \<Rightarrow> rstate" where
  "draw_line env k x threshold advance line st =
     (let st1 = (if y st < threshold then break_page env st else st)
      in st1 \<lparr> events := events st1 @
                   [Line k (cfont st1) (font_page st1) x (y st) (page st) (page st1) (y st1)
                      (fl env (y st1 - advance)) line],
               y := fl env (y st1 - advance) \<rparr>)"

fun draw_lines :: "render_env \<Rightarrow> kind \<Rightarrow> real \<Rightarrow> real \<Rightarrow> real \<Rightarrow> string list \<Rightarrow> rstate
    \<Rightarrow> rstate" where
  "draw_lines env k x threshold advance [] st = st"
| "draw_lines env k x threshold advance (line # rest) st =
     draw_lines env k x threshold advance rest (draw_line env k x threshold advance line st)"

definition gap :: "render_env \<Rightarrow> kind \<Rightarrow> real \<Rightarrow> rstate \<Rightarrow> rstate" where
  "gap env k d st =
     st \<lparr> events := events st @ [Gap k (y st) (fl env (y st - d))], y := fl env (y st - d) \<rparr>"

definition draw_title :: "render_env \<Rightarrow> article \<Rightarrow> rstate \<Rightarrow> rstate" where
  "draw_title env meta st =
     (if title meta \<noteq> [] then
        gap env TitleLine 6
          (draw_lines env TitleLine margin (margin + 40) 22
             (text_lines env (title meta) 18) (set_font env TitleLine 18 st))
      else st)"

definition meta_info :: "article \<Rightarrow> string list" where
  "meta_info meta =
     (if author meta \<noteq> [] then [''By '' @ author meta] else [])
     @ (if date meta \<noteq> [] then [date meta] else [])
     @ (if tags meta \<noteq> [] then [''Tags: '' @ tags meta] else [])"

definition draw_meta :: "render_env \<Rightarrow> article \<Rightarrow> rstate \<Rightarrow> rstate" where
  "draw_meta env meta st =
     (if meta_info meta \<noteq> [] then
        gap env MetaLine 6
          (draw_line env MetaLine margin (margin + 20) 16
             (join ''  |  '' (meta_info meta)) (set_font env MetaLine 9 st))
      else st)"

text \<open>The image branch.  \<^verbatim>\<open>display_w = min(usable_w, iw)\<close> and
  \<^verbatim>\<open>display_h = display_w * (ih / iw)\<close>, a quotient and a product of floats.  A
  failed download or opening, and the division by a pixel width of zero, end
  inside the \<^verbatim>\<open>try\<close> before anything is drawn and before the page-break test.\<close>

definition display_w :: "render_env \<Rightarrow> nat \<Rightarrow> real" where
  "display_w env iw = min (usable_w env) (real iw)"

definition display_h :: "render_env \<Rightarrow> nat \<Rightarrow> nat \<Rightarrow> real" where
  "display_h env iw ih = fl env (display_w env iw * fl env (real ih / real iw))"

definition image_page :: "render_env \<Rightarrow> nat \<Rightarrow> nat \<Rightarrow> rstate \<Rightarrow> rstate" where
  "image_page env iw ih st =
     (if fl env (y st - display_h env iw ih) < margin then break_page env st else st)"

definition draw_image :: "render_env \<Rightarrow> string \<Rightarrow> string \<Rightarrow> rstate \<Rightarrow> rstate" where
  "draw_image env img_url caption st =
     (case load_image env img_url of
        NoImage \<Rightarrow> st
      | Undrawable iw ih \<Rightarrow>
          if iw = 0 then st
          else
            (let st1 = image_page env iw ih st
             in st1 \<lparr> events := events st1 @
                         [Dropped img_url (y st) (page st) (page st1) (y st1)] \<rparr>)
      | Decoded iw ih \<Rightarrow>
          if iw = 0 then st
          else
            (let st1 = image_page env iw ih st;
                 st2 = st1 \<lparr> events := events st1 @
                                [Picture img_url iw ih (y st) (page st) (page st1) margin
                                   (fl env (y st1 - display_h env iw ih))
                                   (display_w env iw) (display_h env iw ih)
                                   (fl env (y st1 - fl env (display_h env iw ih + 6)))],
                              y := fl env (y st1 - fl env (display_h env iw ih + 6)) \<rparr>
             in if caption \<noteq> [] then
                  gap env CaptionLine 6
                    (draw_lines env CaptionLine (margin + 4) (margin + 12) 11
                       (text_lines env caption 9) (set_font env CaptionLine 9 st2))
                else st2))"

fun draw_node :: "render_env \<Rightarrow> node \<Rightarrow> rstate \<Rightarrow> rstate" where
  "draw_node env (Heading txt tag) st =
     (let sz = (if tag = ''h1'' then 14 else 12) in
      gap env (HeadingLine tag) 6
        (draw_lines env (HeadingLine tag) margin (margin + real sz * 2) (real sz + 2)
           (text_lines env txt sz) (set_font env (HeadingLine tag) sz st)))"
| "draw_node env (Paragraph txt) st =
     gap env ParagraphLine 8
       (draw_lines env ParagraphLine margin (margin + 11 * 2) (11 + 2)
          (text_lines env txt 11) (set_font env ParagraphLine 11 st))"
| "draw_node env (Image img_url caption) st = draw_image env img_url caption st"

fun draw_nodes :: "render_env \<Rightarrow> node list \<Rightarrow> rstate \<Rightarrow> rstate" where
  "draw_nodes env [] st = st"
| "draw_nodes env (n # ns) st = draw_nodes env ns (draw_node env n st)"

definition start :: "render_env \<Rightarrow> rstate" where
  "start env = \<lparr> events = [], y = top_y env, page = 0, cfont = initial_font, font_page = 0 \<rparr>"

definition create_pdf :: "render_env \<Rightarrow> article \<Rightarrow> node list \<Rightarrow> rstate" where
  "create_pdf env meta ns = draw_nodes env ns (draw_meta env meta (draw_title env meta (start env)))"

section \<open>What is to be shown of the renderer\<close>

text \<open>The figures of the source by kind of line: the font size that is set, the
  page-break threshold, the cursor advance after a line, and the gap that closes a
  block.\<close>

fun size_of :: "kind \<Rightarrow> nat" where
  "size_of TitleLine = 18"
| "size_of MetaLine = 9"
| "size_of (HeadingLine tag) = (if tag = ''h1'' then 14 else 12)"
| "size_of ParagraphLine = 11"
| "size_of CaptionLine = 9"

fun threshold_of :: "kind \<Rightarrow> real" where
  "threshold_of TitleLine = margin + 40"
| "threshold_of MetaLine = margin + 20"
| "threshold_of (HeadingLine tag) = margin + real (size_of (HeadingLine tag)) * 2"
| "threshold_of ParagraphLine = margin + 11 * 2"
| "threshold_of CaptionLine = margin + 12"

fun advance_of :: "kind \<Rightarrow> real" where
  "advance_of TitleLine = 22"
| "advance_of MetaLine = 16"
| "advance_of (HeadingLine tag) = real (size_of (HeadingLine tag)) + 2"
| "advance_of ParagraphLine = 11 + 2"
| "advance_of CaptionLine = 9 + 2"

fun gap_of :: "kind \<Rightarrow> real" where
  "gap_of ParagraphLine = 8"
| "gap_of TitleLine = 6"
| "gap_of MetaLine = 6"
| "gap_of (HeadingLine tag) = 6"
| "gap_of CaptionLine = 6"

text \<open>What a log must hold, call by call: for every text element a
  \<^verbatim>\<open>setFont\<close>, its wrapped lines in order and one gap; for every image that is
  opened, and whose pixel width is not zero, the drawing, followed by the block of
  its caption when it has one, or the dropped drawing.\<close>

datatype shape = FontS kind nat | LineS kind string | PictureS string | DroppedS string
  | GapS kind

fun shape_of :: "event \<Rightarrow> shape" where
  "shape_of (SetFont k f) = FontS k (snd f)"
| "shape_of (Line k f sp x yi p0 p1 yd yo s) = LineS k s"
| "shape_of (Picture u iw ih yi p0 p1 x py w h yo) = PictureS u"
| "shape_of (Dropped u yi p0 p1 yo) = DroppedS u"
| "shape_of (Gap k gi go) = GapS k"

definition block_shape :: "kind \<Rightarrow> string list \<Rightarrow> shape list" where
  "block_shape k lines = FontS k (size_of k) # map (LineS k) lines @ [GapS k]"

fun node_shape :: "render_env \<Rightarrow> node \<Rightarrow> shape list" where
  "node_shape env (Heading t tag) =
     block_shape (HeadingLine tag) (text_lines env t (size_of (HeadingLine tag)))"
| "node_shape env (Paragraph t) = block_shape ParagraphLine (text_lines env t 11)"
| "node_shape env (Image u caption) =
     (case load_image env u of
        NoImage \<Rightarrow> []
      | Undrawable iw ih \<Rightarrow> if iw = 0 then [] else [DroppedS u]
      | Decoded iw ih \<Rightarrow>
          if iw = 0 then []
          else PictureS u # (if caption \<noteq> [] then block_shape CaptionLine (text_lines env caption 9)
                             else []))"

definition expected_shape :: "render_env \<Rightarrow> article \<Rightarrow> node list \<Rightarrow> shape list" where
  "expected_shape env meta ns =
     (if title meta \<noteq> [] then block_shape TitleLine (text_lines env (title meta) 18) else [])
     @ (if meta_info meta \<noteq> [] then block_shape MetaLine [join ''  |  '' (meta_info meta)] else [])
     @ concat (map (node_shape env) ns)"

text \<open>Replaying a log from a cursor, a page, a canvas font and the page on which
  the font was set.  Each event must start where the one before it ended, and a
  drawing on a new page finds the initial font of the canvas.  The replay fails
  when an event does not fit.\<close>

type_synonym position = "real \<times> nat \<times> font \<times> nat"

fun follow :: "position \<Rightarrow> event \<Rightarrow> position option" where
  "follow (y0, p, f, fp) (SetFont k f') = Some (y0, p, f', p)"
| "follow (y0, p, f, fp) (Line k lf sp x yi p0 p1 yd yo s) =
     (if yi = y0 \<and> p0 = p \<and> sp = fp \<and> (p1 = p0 \<or> p1 = p0 + 1)
         \<and> lf = (if p1 = p0 then f else initial_font)
      then Some (yo, p1, lf, fp) else None)"
| "follow (y0, p, f, fp) (Picture u iw ih yi p0 p1 x py w h yo) =
     (if yi = y0 \<and> p0 = p \<and> (p1 = p0 \<or> p1 = p0 + 1)
      then Some (yo, p1, if p1 = p0 then f else initial_font, fp) else None)"
| "follow (y0, p, f, fp) (Dropped u yi p0 p1 yo) =
     (if yi = y0 \<and> p0 = p \<and> (p1 = p0 \<or> p1 = p0 + 1)
      then Some (yo, p1, if p1 = p0 then f else initial_font, fp) else None)"
| "follow (y0, p, f, fp) (Gap k gi go) = (if gi = y0 then Some (go, p, f, fp) else None)"

fun replay :: "position \<Rightarrow> event list \<Rightarrow> position option" where
  "replay c [] = Some c"
| "replay c (e # es) = (case follow c e of None \<Rightarrow> None | Some c' \<Rightarrow> replay c' es)"

definition position :: "rstate \<Rightarrow> position" where
  "position st = (y st, page st, cfont st, font_page st)"

text \<open>Fonts, advances and gaps.  The font that is set is the registered font at
  the size of the kind.  A line drawn on the page on which its font was set is in
  that font.  After a line the cursor is the rounded difference of the drawing
  height and the advance of the kind; a gap lowers it by the gap of the kind; after
  an image it is lowered by the rounded sum of the drawn height and 6.\<close>

fun line_metrics :: "render_env \<Rightarrow> event \<Rightarrow> bool" where
  "line_metrics env (SetFont k f) = (f = (fontname env, size_of k))"
| "line_metrics env (Line k lf sp x yi p0 p1 yd yo s) =
     ((p1 = sp \<longrightarrow> lf = (fontname env, size_of k)) \<and> yo = fl env (yd - advance_of k))"
| "line_metrics env (Picture u iw ih yi p0 p1 x py w h yo) =
     (yo = fl env ((if p1 = p0 then yi else top_y env) - fl env (h + 6)))"
| "line_metrics env (Dropped u yi p0 p1 yo) = True"
| "line_metrics env (Gap k gi go) = (go = fl env (gi - gap_of k))"

text \<open>The rules of the specification for a line: it is set in the size of its
  kind, and the cursor moves down by that size plus 2.\<close>

definition in_specified_size :: "event \<Rightarrow> bool" where
  "in_specified_size e = (snd (lfont e) = size_of (lkind e))"

definition advance_is_size_plus_2 :: "event \<Rightarrow> bool" where
  "advance_is_size_plus_2 e = (y_draw e - y_out e = real (size_of (lkind e)) + 2)"

text \<open>Page breaks.  A line is drawn by one call, on one page: with the cursor
  below the threshold of its kind the page is broken first and the line is drawn at
  the top margin of the next page; otherwise it is drawn where the cursor stands,
  on the current page.  The cursor then moves below the line.\<close>

fun break_before_line :: "render_env \<Rightarrow> event \<Rightarrow> bool" where
  "break_before_line env (Line k lf sp x yi p0 p1 yd yo s) =
     ((if yi < threshold_of k then p1 = p0 + 1 \<and> yd = top_y env else p1 = p0 \<and> yd = yi)
      \<and> yo = fl env (yd - advance_of k))"
| "break_before_line env (SetFont k f) = True"
| "break_before_line env (Picture u iw ih yi p0 p1 x py w h yo) = True"
| "break_before_line env (Dropped u yi p0 p1 yo) = True"
| "break_before_line env (Gap k gi go) = True"

fun line_above_threshold :: "event \<Rightarrow> bool" where
  "line_above_threshold (Line k lf sp x yi p0 p1 yd yo s) = (threshold_of k \<le> yd)"
| "line_above_threshold (SetFont k f) = True"
| "line_above_threshold (Picture u iw ih yi p0 p1 x py w h yo) = True"
| "line_above_threshold (Dropped u yi p0 p1 yo) = True"
| "line_above_threshold (Gap k gi go) = True"

text \<open>Scaling of a drawn image.  The pixel size is the one the image was opened
  with; the width is the smaller of the usable width and the pixel width; the
  height is the rounded product of the width and the rounded quotient of the pixel
  height and width; the image stands with its lower edge that far below the
  cursor.\<close>

fun picture_scaled :: "render_env \<Rightarrow> event \<Rightarrow> bool" where
  "picture_scaled env (Picture u iw ih yi p0 p1 x py w h yo) =
     (load_image env u = Decoded iw ih \<and> 0 < iw
      \<and> w = min (usable_w env) (real iw) \<and> w \<le> real iw
      \<and> h = fl env (w * fl env (real ih / real iw))
      \<and> x = margin \<and> py = fl env ((if p1 = p0 then yi else top_y env) - h))"
| "picture_scaled env (SetFont k f) = True"
| "picture_scaled env (Line k lf sp x yi p0 p1 yd yo s) = True"
| "picture_scaled env (Dropped u yi p0 p1 yo) = True"
| "picture_scaled env (Gap k gi go) = True"

text \<open>Floating-point tolerance.  A rounding is within \<open>u\<close> when the error of
  every result is at most \<open>u\<close> times its size; for the doubles of the program
  \<open>u\<close> is \<open>1 / 2 ^ 53\<close>.  The aspect ratio of a drawing goes through two
  roundings, so its relative error is at most \<open>2 * u + u * u\<close>.\<close>

definition rounds_within :: "real \<Rightarrow> (real \<Rightarrow> real) \<Rightarrow> bool" where
  "rounds_within u f = (\<forall>x. \<bar>f x - x\<bar> \<le> u * \<bar>x\<bar>)"

definition unit_roundoff :: real where
  "unit_roundoff = 1 / 2 ^ 53"

fun aspect_within :: "real \<Rightarrow> event \<Rightarrow> bool" where
  "aspect_within u (Picture url iw ih yi p0 p1 x py w h yo) =
     (\<bar>h / w - real ih / real iw\<bar> \<le> (2 * u + u * u) * (real ih / real iw))"
| "aspect_within u (SetFont k f) = True"
| "aspect_within u (Line k lf sp x yi p0 p1 yd yo s) = True"
| "aspect_within u (Dropped url yi p0 p1 yo) = True"
| "aspect_within u (Gap k gi go) = True"

text \<open>Concrete renderer inputs.  On the demonstration page of 600 by 800 points
  every character is 6 points wide and the values that occur are small integers
  and halves, which the doubles hold exactly, so that nothing is rounded.  The
  small page is 120 points high; its fourth one-line paragraph no longer fits.  One
  image opens and is drawn; another opens, 900 pixels high, but cannot be drawn.  On
  the page of the tall image the values round as the doubles do: the quotient
  \<open>1/49\<close>, its product with 49, and the two cursor values that hold the drawn
  height.\<close>

definition demo_env :: render_env where
  "demo_env = \<lparr> page_w = 600, page_h = 800, fl = (\<lambda>x. x),
                stringWidth = (\<lambda>s f n. 6 * real (length s)),
                fontname = ''DejaVuSans'',
                load_image = (\<lambda>u. if u = ''https://example.org/a.png'' then Decoded 1200 600
                                   else if u = ''https://example.org/b.png''
                                   then Undrawable 100 900
                                   else NoImage) \<rparr>"

definition empty_article :: article where
  "empty_article = \<lparr> title = [], author = [], date = [], tags = [], lead_image = [], nodes = [] \<rparr>"

definition signed_article :: article where
  "signed_article = \<lparr> title = ''T'', author = ''A'', date = [], tags = [], lead_image = [],
                       nodes = [] \<rparr>"

definition small_env :: render_env where
  "small_env = demo_env \<lparr> page_h := 120 \<rparr>"

definition four_paragraphs :: "node list" where
  "four_paragraphs = [Paragraph ''one'', Paragraph ''two'', Paragraph ''three'', Paragraph ''four'']"

definition picture_nodes :: "node list" where
  "picture_nodes = [Image ''https://example.org/a.png'' ''A view'']"

definition dropped_nodes :: "node list" where
  "dropped_nodes = [Image ''https://example.org/b.png'' ''A view'']"

definition quotient_49 :: real where
  "quotient_49 = 5882252574524729 / 2 ^ 58"

definition double_rounding :: "real \<Rightarrow> real" where
  "double_rounding x =
     (if x = 1 / 49 then quotient_49
      else if x = 49 * quotient_49 then 1 - 1 / 2 ^ 53
      else if x = 772 - (1 - 1 / 2 ^ 53) then 771
      else if x = (1 - 1 / 2 ^ 53) + 6 then 7
      else x)"

definition strip_env :: render_env where
  "strip_env = \<lparr> page_w = 600, page_h = 800, fl = double_rounding,
                 stringWidth = (\<lambda>s f n. 6 * real (length s)),
                 fontname = ''DejaVuSans'',
                 load_image = (\<lambda>u. if u = ''https://example.org/strip.png'' then Decoded 49 1
                                    else NoImage) \<rparr>"

definition strip_nodes :: "node list" where
  "strip_nodes = [Image ''https://example.org/strip.png'' []]"

section \<open>The plain-text composer in \<^verbatim>\<open>ScraperGUI._worker\<close>\<close>

text \<open>The list \<^verbatim>\<open>text_parts\<close>: the title and an empty entry, the metadata lines,
  an empty entry, then for every node its line or lines and an empty entry.  The
  text is the list joined by newlines and stripped.\<close>

definition header_parts :: "article \<Rightarrow> string list" where
  "header_parts meta =
     (if title meta \<noteq> [] then [title meta, []] else [])
     @ (if author meta \<noteq> [] then [''By '' @ author meta] else [])
     @ (if date meta \<noteq> [] then [''Published: '' @ date meta] else [])
     @ (if tags meta \<noteq> [] then [''Tags: '' @ tags meta] else [])
     @ [[]]"

fun node_lines :: "node \<Rightarrow> string list" where
  "node_lines (Heading t tag) = [py_upper t]"
| "node_lines (Paragraph t) = [t]"
| "node_lines (Image u caption) =
     [''[Image: '' @ u @ '']''] @ (if caption \<noteq> [] then [''Caption: '' @ caption] else [])"

fun node_parts :: "node list \<Rightarrow> string list" where
  "node_parts [] = []"
| "node_parts (n # ns) = node_lines n @ [[]] @ node_parts ns"

definition text_parts :: "article \<Rightarrow> node list \<Rightarrow> string list" where
  "text_parts meta ns = header_parts meta @ node_parts ns"

definition compose :: "article \<Rightarrow> node list \<Rightarrow> string" where
  "compose meta ns = py_strip (join ''\<newline>'' (text_parts meta ns))"

text \<open>\<^verbatim>\<open>s.split("\n")\<close>: the lines of a text.\<close>

fun lines_from :: "string \<Rightarrow> string \<Rightarrow> string list" where
  "lines_from cur [] = [cur]"
| "lines_from cur (c # cs) =
     (if c = CHR ''\<newline>'' then cur # lines_from [] cs else lines_from (cur @ [c]) cs)"

definition lines_of :: "string \<Rightarrow> string list" where
  "lines_of s = lines_from [] s"

text \<open>The scenario: a level-1 heading and one paragraph, under a title.\<close>

definition scenario_nodes :: "node list" where
  "scenario_nodes =
     [Heading ''Title'' ''h1'',
      Paragraph ''This is a long enough paragraph to pass the filter.'']"

definition titled :: "string \<Rightarrow> article" where
  "titled t = \<lparr> title = t, author = [], date = [], tags = [], lead_image = [], nodes = [] \<rparr>"

section \<open>Auxiliary notions for the proofs\<close>

text \<open>A word has at least one character and no whitespace; a trimmed string
  neither starts nor ends with whitespace.\<close>

definition is_word :: "string \<Rightarrow> bool" where
  "is_word w = (w \<noteq> [] \<and> (\<forall>c \<in> set w. \<not> isspace c))"

definition trimmed :: "string \<Rightarrow> bool" where
  "trimmed s = (s = [] \<or> (\<not> isspace (hd s) \<and> \<not> isspace (last s)))"

text \<open>The filter of the node stream, read on the trimmed text of a node: a
  heading has some text, a paragraph has more than 10 characters.\<close>

fun emitted_text_ok :: "node \<Rightarrow> bool" where
  "emitted_text_ok (Heading t tag) = (py_strip t \<noteq> [])"
| "emitted_text_ok (Paragraph t) = (py_strip t \<noteq> [] \<and> 10 < length (py_strip t))"
| "emitted_text_ok (Image u caption) = True"

text \<open>The pointwise facts about one event, taken together, and the font of the
  canvas while a block of kind \<open>k\<close> is drawn: on the page on which the font was
  set it is the font of the kind.\<close>

definition event_ok :: "render_env \<Rightarrow> event \<Rightarrow> bool" where
  "event_ok env e = (line_metrics env e \<and> break_before_line env e \<and> picture_scaled env e)"

definition font_inv :: "render_env \<Rightarrow> kind \<Rightarrow> rstate \<Rightarrow> bool" where
  "font_inv env k st =
     (font_page st \<le> page st \<and> (page st = font_page st \<longrightarrow> cfont st = (fontname env, size_of k)))"

text \<open>A stretch of the run from \<open>st\<close> to \<open>st'\<close>: the log grows by events of the
  given shapes, each of them sound, and replaying them leads from the position of
  \<open>st\<close> to that of \<open>st'\<close>.\<close>

definition run :: "render_env \<Rightarrow> rstate \<Rightarrow> rstate \<Rightarrow> shape list \<Rightarrow> bool" where
  "run env st st' shp =
     (\<exists>new. events st' = events st @ new
        \<and> replay (position st) new = Some (position st')
        \<and> map shape_of new = shp
        \<and> (\<forall>e \<in> set new. event_ok env e))"

section \<open>Facts about stripping, splitting and wrapping\<close>

lemma isspace_space [simp]: "isspace CHR '' ''"
  by (simp add: isspace_def)

lemma dropWhile_last_keep:
  "s \<noteq> [] \<Longrightarrow> \<not> P (last s) \<Longrightarrow> dropWhile P (rev s) = rev s"
  by (cases s rule: rev_cases) simp_all

lemma py_strip_trimmed: "trimmed s \<Longrightarrow> py_strip s = s"
proof (cases "s = []")
  case True
  then show ?thesis by (simp add: py_strip_def)
next
  case False
  assume "trimmed s"
  with False have h: "\<not> isspace (hd s)" and l: "\<not> isspace (last s)"
    by (auto simp: trimmed_def)
  from False h have d: "dropWhile isspace s = s" by (cases s) simp_all
  from dropWhile_last_keep [of s isspace, OF False l] d show ?thesis by (simp add: py_strip_def)
qed

lemma trimmed_py_strip: "trimmed (py_strip s)"
proof -
  let ?d = "dropWhile isspace (rev (dropWhile isspace s))"
  have a: "?d \<noteq> [] \<Longrightarrow> \<not> isspace (hd ?d)"
    by (rule hd_dropWhile)
  have b: "?d \<noteq> [] \<Longrightarrow> \<not> isspace (last ?d)"
  proof -
    assume ne: "?d \<noteq> []"
    have ne2: "dropWhile isspace s \<noteq> []"
    proof
      assume e: "dropWhile isspace s = []"
      have "?d = []" unfolding e by simp
      with ne show False by simp
    qed
    have "rev (dropWhile isspace s) = takeWhile isspace (rev (dropWhile isspace s)) @ ?d"
      by simp
    then have "last (rev (dropWhile isspace s)) = last ?d"
      using ne by (metis last_appendR)
    then have "last ?d = hd (dropWhile isspace s)" using ne2 by (simp add: last_rev)
    then show ?thesis using hd_dropWhile [OF ne2] by simp
  qed
  show ?thesis
    unfolding trimmed_def py_strip_def using a b
    by (cases "?d = []") (simp_all add: hd_rev last_rev)
qed

lemma length_py_strip: "length (py_strip s) \<le> length s"
proof -
  have "length (dropWhile isspace (rev (dropWhile isspace s))) \<le> length (dropWhile isspace s)"
    using length_dropWhile_le [of isspace "rev (dropWhile isspace s)"] by simp
  also have "\<dots> \<le> length s" by (rule length_dropWhile_le)
  finally show ?thesis by (simp add: py_strip_def)
qed

lemma split_from_word:
  "\<forall>c \<in> set w. \<not> isspace c \<Longrightarrow> split_from cur w = (if cur @ w = [] then [] else [cur @ w])"
  by (induction w arbitrary: cur) auto

lemma split_from_space:
  "isspace c \<Longrightarrow> split_from cur (a @ c # b) = split_from cur a @ split_from [] b"
  by (induction a arbitrary: cur) auto

lemma py_split_word: "is_word w \<Longrightarrow> py_split w = [w]"
  by (simp add: py_split_def is_word_def split_from_word)

lemma py_split_join: "is_word w \<Longrightarrow> py_split (a @ '' '' @ w) = py_split a @ [w]"
  using split_from_space [of "CHR '' ''" "[]" a w] py_split_word [of w]
  by (simp add: py_split_def)

lemma split_from_words:
  "w \<in> set (split_from cur s) \<Longrightarrow> \<forall>c \<in> set cur. \<not> isspace c \<Longrightarrow> is_word w"
proof (induction s arbitrary: cur)
  case Nil
  then show ?case by (auto simp: is_word_def split: if_splits)
next
  case (Cons a s)
  show ?case
  proof (cases "isspace a")
    case True
    with Cons.prems(1) have "w = cur \<and> cur \<noteq> [] \<or> w \<in> set (split_from [] s)"
      by (simp split: if_splits)
    then show ?thesis
    proof
      assume "w = cur \<and> cur \<noteq> []"
      then show ?thesis using Cons.prems(2) by (simp add: is_word_def)
    next
      assume "w \<in> set (split_from [] s)"
      then show ?thesis by (rule Cons.IH) simp
    qed
  next
    case False
    with Cons.prems(1) have "w \<in> set (split_from (cur @ [a]) s)" by simp
    then show ?thesis by (rule Cons.IH) (use False Cons.prems(2) in simp)
  qed
qed

lemma py_split_words: "w \<in> set (py_split s) \<Longrightarrow> is_word w"
  using split_from_words [of w "[]" s] by (simp add: py_split_def)

lemma split_from_length:
  "w \<in> set (split_from cur s) \<Longrightarrow> length w \<le> length cur + length s"
proof (induction s arbitrary: cur)
  case Nil
  then show ?case by (simp split: if_splits)
next
  case (Cons a s)
  show ?case
  proof (cases "isspace a")
    case True
    with Cons.prems have "w = cur \<or> w \<in> set (split_from [] s)"
      by (simp split: if_splits)
    then show ?thesis using Cons.IH [of "[]"] by auto
  next
    case False
    with Cons.prems have "w \<in> set (split_from (cur @ [a]) s)" by simp
    from Cons.IH [OF this] show ?thesis by simp
  qed
qed

lemma split_from_infix:
  "w \<in> set (split_from cur s) \<Longrightarrow> \<exists>u z. cur @ s = u @ w @ z"
proof (induction s arbitrary: cur)
  case Nil
  then have "w = cur" by (simp split: if_splits)
  then have "cur @ [] = [] @ w @ []" by simp
  then show ?case by blast
next
  case (Cons a s)
  show ?case
  proof (cases "isspace a")
    case True
    with Cons.prems have "w = cur \<or> w \<in> set (split_from [] s)"
      by (simp split: if_splits)
    then show ?thesis
    proof
      assume "w = cur"
      then have "cur @ a # s = [] @ w @ (a # s)" by simp
      then show ?thesis by blast
    next
      assume "w \<in> set (split_from [] s)"
      from Cons.IH [OF this] obtain u z where "s = u @ w @ z" by auto
      then have "cur @ a # s = (cur @ a # u) @ w @ z" by simp
      then show ?thesis by blast
    qed
  next
    case False
    with Cons.prems have "w \<in> set (split_from (cur @ [a]) s)" by simp
    from Cons.IH [OF this] obtain u z where "(cur @ [a]) @ s = u @ w @ z" by blast
    then have "cur @ a # s = u @ w @ z" by simp
    then show ?thesis by blast
  qed
qed

lemma py_split_infix: "w \<in> set (py_split s) \<Longrightarrow> \<exists>u z. s = u @ w @ z"
  using split_from_infix [of w "[]" s] by (simp add: py_split_def)

lemma py_split_length: "w \<in> set (py_split s) \<Longrightarrow> length w \<le> length s"
  using split_from_length [of w "[]" s] by (simp add: py_split_def)

lemma is_word_trimmed: "is_word w \<Longrightarrow> trimmed w"
  by (cases w rule: rev_cases) (auto simp: is_word_def trimmed_def hd_append split: list.splits)

lemma candidate_eq:
  assumes "trimmed cur" "is_word w"
  shows "py_strip (cur @ '' '' @ w) = (if cur = [] then w else cur @ '' '' @ w)"
proof (cases "cur = []")
  case True
  have "py_strip ('' '' @ w) = py_strip w"
    using assms(2) by (cases w) (auto simp: py_strip_def is_word_def)
  then show ?thesis using True assms(2) by (simp add: py_strip_trimmed is_word_trimmed)
next
  case False
  have "w \<noteq> []" using assms(2) by (simp add: is_word_def)
  then have "trimmed (cur @ '' '' @ w)"
    using False assms is_word_trimmed [of w] by (auto simp: trimmed_def hd_append)
  then show ?thesis using False by (simp add: py_strip_trimmed)
qed

lemma candidate_split:
  "trimmed cur \<Longrightarrow> is_word w \<Longrightarrow> py_split (py_strip (cur @ '' '' @ w)) = py_split cur @ [w]"
proof (cases "cur = []")
  case True
  assume tw: "trimmed cur" "is_word w"
  have "py_strip (cur @ '' '' @ w) = w"
    using candidate_eq [OF tw] True by simp
  then show ?thesis using True py_split_word [OF tw(2)] by (simp add: py_split_def)
next
  case False
  assume tw: "trimmed cur" "is_word w"
  have "py_strip (cur @ '' '' @ w) = cur @ '' '' @ w"
    using candidate_eq [OF tw] False by simp
  then show ?thesis using py_split_join [OF tw(2), of cur] by simp
qed

lemma wrap_loop_inv:
  assumes "wrap_loop width mw lines cur ws = (L, c)" "trimmed cur" "\<forall>w \<in> set ws. is_word w"
    "[] \<notin> set lines"
  shows "trimmed c \<and> [] \<notin> set L
    \<and> concat (map py_split L) @ py_split c = concat (map py_split lines) @ py_split cur @ ws"
  using assms
proof (induction ws arbitrary: lines cur)
  case Nil
  then show ?case by simp
next
  case (Cons w ws)
  let ?cand = "py_strip (cur @ '' '' @ w)"
  have w: "is_word w" using Cons.prems(3) by simp
  show ?case
  proof (cases "width ?cand \<le> mw")
    case True
    with Cons.prems(1) have run: "wrap_loop width mw lines ?cand ws = (L, c)" by simp
    have sp: "py_split ?cand = py_split cur @ [w]"
      by (rule candidate_split [OF Cons.prems(2) w])
    from Cons.IH [OF run trimmed_py_strip] Cons.prems(3,4)
    show ?thesis unfolding sp by simp
  next
    case False
    with Cons.prems(1)
    have run: "wrap_loop width mw (if cur \<noteq> [] then lines @ [cur] else lines) w ws = (L, c)"
      by simp
    have e: "py_split [] = []" by (simp add: py_split_def)
    from Cons.IH [OF run is_word_trimmed [OF w]] Cons.prems(3,4)
    show ?thesis by (cases "cur = []") (simp_all add: py_split_word [OF w] e)
  qed
qed

lemma wrap_loop_mono: "wrap_loop width mw lines cur ws = (L, c) \<Longrightarrow> set lines \<subseteq> set L"
proof (induction ws arbitrary: lines cur)
  case Nil
  then show ?case by simp
next
  case (Cons w ws)
  then show ?case by (fastforce simp: Let_def split: if_splits)
qed

lemma wrap_loop_wide:
  assumes "wrap_loop width mw lines cur ws = (L, c)" "trimmed cur" "\<forall>v \<in> set ws. is_word v"
    "is_word w" "\<And>s. w \<in> set (py_split s) \<Longrightarrow> mw < width s" "cur = w \<or> w \<in> set ws"
  shows "w \<in> set L \<or> c = w"
  using assms(1,2,3,6)
proof (induction ws arbitrary: lines cur)
  case Nil
  then show ?case by simp
next
  case (Cons v ws)
  let ?cand = "py_strip (cur @ '' '' @ v)"
  have v: "is_word v" using Cons.prems(3) by simp
  have sp: "py_split ?cand = py_split cur @ [v]"
    by (rule candidate_split [OF Cons.prems(2) v])
  show ?case
  proof (cases "width ?cand \<le> mw")
    case True
    then have "w \<notin> set (py_split ?cand)" using assms(5) [of ?cand] by auto
    then have "v \<noteq> w" "cur \<noteq> w" using sp py_split_word [OF assms(4)] by auto
    then have in_ws: "w \<in> set ws" using Cons.prems(4) by auto
    from True Cons.prems(1) have "wrap_loop width mw lines ?cand ws = (L, c)" by simp
    from Cons.IH [OF this trimmed_py_strip] Cons.prems(3) in_ws show ?thesis by simp
  next
    case False
    let ?lines = "if cur \<noteq> [] then lines @ [cur] else lines"
    from False Cons.prems(1) have run: "wrap_loop width mw ?lines v ws = (L, c)" by simp
    show ?thesis
    proof (cases "cur = w")
      case True
      then have "w \<in> set ?lines" using assms(4) by (simp add: is_word_def)
      then show ?thesis using wrap_loop_mono [OF run] by auto
    next
      case False
      then have "v = w \<or> w \<in> set ws" using Cons.prems(4) by auto
      from Cons.IH [OF run is_word_trimmed [OF v]] Cons.prems(3) this show ?thesis by simp
    qed
  qed
qed

section \<open>Facts about the fetcher\<close>

lemma contains_set: "contains sub s \<Longrightarrow> set sub \<subseteq> set s"
proof (induction s)
  case Nil
  then show ?case by simp
next
  case (Cons c cs)
  from Cons.prems have "prefix sub (c # cs) \<or> contains sub cs" by simp
  then show ?case
  proof
    assume "prefix sub (c # cs)"
    then show ?thesis by (rule set_mono_prefix)
  next
    assume "contains sub cs"
    then show ?thesis using Cons.IH by auto
  qed
qed

lemma py_strip_spaces: "py_strip (replicate n (CHR '' '')) = []"
  by (simp add: py_strip_def)

lemma py_lower_spaces: "py_lower (replicate n (CHR '' '')) = replicate n (CHR '' '')"
  by (simp add: py_lower_def lower_char_def)

lemma no_marker_in_spaces: "\<not> has_script_marker (replicate n (CHR '' ''))"
proof
  assume "has_script_marker (replicate n (CHR '' ''))"
  then have "contains ''<noscript'' (replicate n (CHR '' ''))
           \<or> contains ''javascript required'' (replicate n (CHR '' ''))"
    by (simp add: has_script_marker_def py_lower_spaces)
  then show False
    by (auto dest!: contains_set)
qed

lemma example_org_not_contained: "\<not> netloc_has_listed (Inr ''example.org'')"
  by (simp add: netloc_has_listed_def js_heavy_sites_def py_lower_def lower_char_def)

lemma need_render_eq_spec: "need_render (Some t) domain = needs_rendered_fetch_spec t domain"
proof -
  have "t = [] \<Longrightarrow> length (py_strip t) < 800" by (simp add: py_strip_def)
  then show ?thesis
    by (cases domain)
       (auto simp: need_render_def needs_rendered_fetch_spec_def has_script_marker_def
                   netloc_has_listed_def list_ex_iff)
qed

lemma no_marker_in_replicate:
  assumes "lower_char c = c"
  shows "\<not> has_script_marker (replicate n c)"
proof
  have low: "py_lower (replicate n c) = replicate n c"
    using assms by (simp add: py_lower_def)
  assume "has_script_marker (replicate n c)"
  then have "contains ''<noscript'' (replicate n c)
           \<or> contains ''javascript required'' (replicate n c)"
    by (simp add: has_script_marker_def low)
  then have "set ''<noscript'' \<subseteq> set (replicate n c)
           \<or> set ''javascript required'' \<subseteq> set (replicate n c)"
    using contains_set by blast
  then have "set ''<noscript'' \<subseteq> {c} \<or> set ''javascript required'' \<subseteq> {c}"
    using set_replicate_conv_if [of n c] by (auto split: if_splits)
  then show False by auto
qed

lemma triggered_iff:
  "session_get env url timeout = Inr (t, u) \<Longrightarrow>
     fallback_triggered env url timeout flag
       \<longleftrightarrow> flag \<and> needs_rendered_fetch_spec t (netloc env url)"
  by (auto simp: fallback_triggered_def static_text_def need_render_eq_spec)

lemma static_env_get: "session_get (static_env markup n) url timeout = Inr (markup, url)"
  "netloc (static_env markup n) url = Inr n"
  by (simp_all add: static_env_def)

lemma trimmed_replicate: "\<not> isspace c \<Longrightarrow> trimmed (replicate n c)"
  by (cases n) (simp_all add: trimmed_def)

lemma py_strip_rendered_page: "py_strip rendered_page = rendered_page"
  unfolding rendered_page_def
  by (rule py_strip_trimmed, rule trimmed_replicate) (simp add: isspace_def)

section \<open>Facts about joining and the composer\<close>

lemma join_append:
  "xs \<noteq> [] \<Longrightarrow> ys \<noteq> [] \<Longrightarrow> join sep (xs @ ys) = join sep xs @ sep @ join sep ys"
proof (induction sep xs rule: join.induct)
  case (1 sep)
  then show ?case by simp
next
  case (2 sep x)
  then show ?case by (cases ys) simp_all
next
  case (3 sep x y zs)
  then show ?case by simp
qed

lemma join_snoc_empty: "xs \<noteq> [] \<Longrightarrow> join sep (xs @ [[]]) = join sep xs @ sep"
  using join_append [of xs "[[]]" sep] by simp

lemma py_strip_snoc_space: "isspace c \<Longrightarrow> py_strip (s @ [c]) = py_strip s"
proof (cases "\<forall>x \<in> set s. isspace x")
  case True
  assume c: "isspace c"
  from True have d: "dropWhile isspace s = []" by simp
  from True c have e: "dropWhile isspace (s @ [c]) = []" by simp
  show ?thesis unfolding py_strip_def e d by simp
next
  case False
  assume c: "isspace c"
  from False have e: "dropWhile isspace (s @ [c]) = dropWhile isspace s @ [c]"
    by (auto simp: dropWhile_append)
  show ?thesis unfolding py_strip_def e using c by simp
qed

lemma isspace_newline: "isspace (CHR ''\<newline>'')"
  by (simp add: isspace_def)

lemma node_parts_concat: "node_parts ns = concat (map (\<lambda>n. node_lines n @ [[]]) ns)"
  by (induction ns) simp_all

lemma node_lines_nonempty: "node_lines n \<noteq> []"
  by (cases n) simp_all

lemma trimmed_append:
  "a \<noteq> [] \<Longrightarrow> trimmed a \<Longrightarrow> trimmed b \<Longrightarrow> trimmed (a @ b)"
  by (cases "b = []") (auto simp: trimmed_def hd_append)

lemma py_upper_Title: "py_upper ''Title'' = ''TITLE''"
  by code_simp

section \<open>Facts about the extraction\<close>

lemma join_empty_sep: "join [] xs = concat xs"
  by (induction "[] :: string" xs rule: join.induct) simp_all

lemma trimmed_concat:
  "\<forall>p \<in> set ps. p \<noteq> [] \<and> trimmed p \<Longrightarrow> trimmed (concat ps)"
proof (induction ps)
  case Nil
  then show ?case by (simp add: trimmed_def)
next
  case (Cons p ps)
  then show ?case by (simp add: trimmed_append)
qed

lemma trimmed_get_text: "trimmed (get_text [] el)"
  unfolding get_text_def join_empty_sep stripped_strings_def
  by (rule trimmed_concat) (auto simp: trimmed_py_strip)

lemma py_strip_get_text: "py_strip (get_text [] el) = get_text [] el"
  by (rule py_strip_trimmed) (rule trimmed_get_text)

lemma build_nodes_ok:
  "build_nodes urljoin base_url ds acc = Inr ns \<Longrightarrow> \<forall>n \<in> set acc. emitted_text_ok n
     \<Longrightarrow> \<forall>n \<in> set ns. emitted_text_ok n"
proof (induction ds arbitrary: acc)
  case Nil
  then show ?case by simp
next
  case (Cons d ds)
  obtain el parent where d: "d = (el, parent)" by (cases d)
  show ?case
  proof (cases "tag_name el")
    case None
    with Cons.prems d have "build_nodes urljoin base_url ds acc = Inr ns" by simp
    from Cons.IH [OF this Cons.prems(2)] show ?thesis .
  next
    case (Some name)
    let ?t = "get_text [] el"
    consider (h) "name \<in> {''h1'', ''h2'', ''h3'', ''h4''}"
      | (p) "name \<notin> {''h1'', ''h2'', ''h3'', ''h4''}" "name \<in> {''p'', ''blockquote'', ''li''}"
      | (i) "name \<notin> {''h1'', ''h2'', ''h3'', ''h4''}" "name \<notin> {''p'', ''blockquote'', ''li''}"
            "name = ''img''"
      | (o) "name \<notin> {''h1'', ''h2'', ''h3'', ''h4''}" "name \<notin> {''p'', ''blockquote'', ''li''}"
            "name \<noteq> ''img''"
      by blast
    then show ?thesis
    proof cases
      case h
      let ?acc = "if ?t \<noteq> [] then acc @ [Heading ?t name] else acc"
      from h Some Cons.prems(1) d have run: "build_nodes urljoin base_url ds ?acc = Inr ns"
        by (auto simp: Let_def split: if_splits)
      have "\<forall>n \<in> set ?acc. emitted_text_ok n"
        using Cons.prems(2) by (simp add: py_strip_get_text)
      from Cons.IH [OF run this] show ?thesis .
    next
      case p
      let ?acc = "if ?t \<noteq> [] \<and> 10 < length ?t then acc @ [Paragraph ?t] else acc"
      from p Some Cons.prems(1) d have run: "build_nodes urljoin base_url ds ?acc = Inr ns"
        by (auto simp: Let_def split: if_splits)
      have "\<forall>n \<in> set ?acc. emitted_text_ok n"
        using Cons.prems(2) by (simp add: py_strip_get_text)
      from Cons.IH [OF run this] show ?thesis .
    next
      case i
      show ?thesis
      proof (cases "first_src el")
        case None
        with i Some Cons.prems(1) d have "build_nodes urljoin base_url ds acc = Inr ns"
          by simp
        from Cons.IH [OF this Cons.prems(2)] show ?thesis .
      next
        case src: (Some src)
        show ?thesis
        proof (cases "urljoin base_url src")
          case (Inl e)
          with i Some src Cons.prems(1) d show ?thesis by simp
        next
          case (Inr absu)
          with i Some src Cons.prems(1) d
          have run: "build_nodes urljoin base_url ds (acc @ [Image absu (image_caption el parent)])
                     = Inr ns"
            by simp
          have "\<forall>n \<in> set (acc @ [Image absu (image_caption el parent)]). emitted_text_ok n"
            using Cons.prems(2) by simp
          from Cons.IH [OF run this] show ?thesis .
        qed
      qed
    next
      case o
      with Some Cons.prems(1) d have "build_nodes urljoin base_url ds acc = Inr ns" by simp
      from Cons.IH [OF this Cons.prems(2)] show ?thesis .
    qed
  qed
qed

lemma extract_fields:
  assumes "extract_more_elements urljoin readability soup base_url = Inr out"
  shows "\<exists>content. build_nodes urljoin base_url (descendants_with_parent content) []
                     = Inr (nodes out)"
    and "author out = extract_author soup"
proof -
  let ?mc = "case readability of Some (content, title_r) \<Rightarrow> content
                               | None \<Rightarrow> heuristic_content soup"
  obtain lead where lead: "extract_lead_image urljoin base_url soup = Inr lead"
    using assms by (cases "extract_lead_image urljoin base_url soup")
                    (simp_all add: extract_more_elements_def)
  obtain ns where ns: "build_nodes urljoin base_url (descendants_with_parent ?mc) [] = Inr ns"
    using assms lead
    by (cases "build_nodes urljoin base_url (descendants_with_parent ?mc) []")
       (simp_all add: extract_more_elements_def)
  from assms lead ns have n: "nodes out = ns" and a: "author out = extract_author soup"
    by (auto simp: extract_more_elements_def Let_def)
  from ns n show "\<exists>content. build_nodes urljoin base_url (descendants_with_parent content) []
                     = Inr (nodes out)"
    by blast
  from a show "author out = extract_author soup" .
qed

section \<open>Facts about the renderer\<close>

text \<open>Every step of the renderer appends to the log, and the appended events
  replay from the position before the step to the position after it.\<close>

lemma replay_append:
  "replay c (es @ es') = (case replay c es of None \<Rightarrow> None | Some c' \<Rightarrow> replay c' es')"
  by (induction es arbitrary: c) (simp_all split: option.splits)

lemma run_refl: "run env st st []"
  by (simp add: run_def)

lemma run_trans:
  assumes "run env st st' shp" and "run env st' st'' shp'"
  shows "run env st st'' (shp @ shp')"
proof -
  from assms(1) obtain new where new: "events st' = events st @ new"
    "replay (position st) new = Some (position st')" "map shape_of new = shp"
    "\<forall>e \<in> set new. event_ok env e"
    unfolding run_def by blast
  from assms(2) obtain new' where new': "events st'' = events st' @ new'"
    "replay (position st') new' = Some (position st'')" "map shape_of new' = shp'"
    "\<forall>e \<in> set new'. event_ok env e"
    unfolding run_def by blast
  have "events st'' = events st @ (new @ new')" using new(1) new'(1) by simp
  moreover have "replay (position st) (new @ new') = Some (position st'')"
    using new(2) new'(2) by (simp add: replay_append)
  moreover have "map shape_of (new @ new') = shp @ shp'" using new(3) new'(3) by simp
  moreover have "\<forall>e \<in> set (new @ new'). event_ok env e" using new(4) new'(4) by auto
  ultimately show ?thesis unfolding run_def by blast
qed

lemma run_single:
  assumes "events st' = events st @ [e]" and "follow (position st) e = Some (position st')"
    and "event_ok env e"
  shows "run env st st' [shape_of e]"
  unfolding run_def using assms by (intro exI [of _ "[e]"]) simp

lemma set_font_run:
  "run env st (set_font env k (size_of k) st) [FontS k (size_of k)]"
proof -
  let ?e = "SetFont k (fontname env, size_of k)"
  have "run env st (set_font env k (size_of k) st) [shape_of ?e]"
    by (rule run_single [where e = ?e])
       (simp_all add: set_font_def position_def event_ok_def)
  then show ?thesis by simp
qed

lemma set_font_inv: "font_inv env k (set_font env k (size_of k) st)"
  by (simp add: font_inv_def set_font_def)

lemma draw_line_run:
  assumes inv: "font_inv env k st"
  shows "run env st (draw_line env k x (threshold_of k) (advance_of k) line st) [LineS k line]"
proof -
  let ?st1 = "if y st < threshold_of k then break_page env st else st"
  let ?e = "Line k (cfont ?st1) (font_page ?st1) x (y st) (page st) (page ?st1) (y ?st1)
              (fl env (y ?st1 - advance_of k)) line"
  have ev: "events (draw_line env k x (threshold_of k) (advance_of k) line st)
              = events st @ [?e]"
    by (simp add: draw_line_def Let_def break_page_def)
  have fo: "follow (position st) ?e
              = Some (position (draw_line env k x (threshold_of k) (advance_of k) line st))"
    by (simp add: draw_line_def Let_def break_page_def position_def)
  have ok: "event_ok env ?e"
    using inv by (auto simp: event_ok_def font_inv_def break_page_def)
  have "run env st (draw_line env k x (threshold_of k) (advance_of k) line st) [shape_of ?e]"
    by (rule run_single [OF ev fo ok])
  then show ?thesis by simp
qed

lemma draw_line_inv:
  "font_inv env k st \<Longrightarrow> font_inv env k (draw_line env k x th adv line st)"
  by (auto simp: font_inv_def draw_line_def Let_def break_page_def)

lemma draw_lines_run:
  "font_inv env k st \<Longrightarrow>
     run env st (draw_lines env k x (threshold_of k) (advance_of k) lines st) (map (LineS k) lines)"
proof (induction lines arbitrary: st)
  case Nil
  then show ?case by (simp add: run_refl)
next
  case (Cons line lines)
  let ?st' = "draw_line env k x (threshold_of k) (advance_of k) line st"
  have a: "run env st ?st' [LineS k line]" by (rule draw_line_run [OF Cons.prems])
  have b: "run env ?st' (draw_lines env k x (threshold_of k) (advance_of k) lines ?st')
             (map (LineS k) lines)"
    by (rule Cons.IH) (rule draw_line_inv [OF Cons.prems])
  from run_trans [OF a b] show ?case by simp
qed

lemma gap_run: "run env st (gap env k (gap_of k) st) [GapS k]"
proof -
  let ?e = "Gap k (y st) (fl env (y st - gap_of k))"
  have "run env st (gap env k (gap_of k) st) [shape_of ?e]"
    by (rule run_single [where e = ?e]) (simp_all add: gap_def position_def event_ok_def)
  then show ?thesis by simp
qed

lemma block_run:
  "run env st
     (gap env k (gap_of k)
        (draw_lines env k x (threshold_of k) (advance_of k) lines (set_font env k (size_of k) st)))
     (block_shape k lines)"
proof -
  let ?s1 = "set_font env k (size_of k) st"
  let ?s2 = "draw_lines env k x (threshold_of k) (advance_of k) lines ?s1"
  have a: "run env st ?s1 [FontS k (size_of k)]" by (rule set_font_run)
  have b: "run env ?s1 ?s2 (map (LineS k) lines)" by (rule draw_lines_run) (rule set_font_inv)
  have c: "run env ?s2 (gap env k (gap_of k) ?s2) [GapS k]" by (rule gap_run)
  from run_trans [OF run_trans [OF a b] c] show ?thesis by (simp add: block_shape_def)
qed

lemma draw_image_run: "run env st (draw_image env u caption st) (node_shape env (Image u caption))"
proof (cases "load_image env u")
  case NoImage
  then show ?thesis by (simp add: draw_image_def run_refl)
next
  case (Undrawable iw ih)
  show ?thesis
  proof (cases "iw = 0")
    case True
    with Undrawable show ?thesis by (simp add: draw_image_def run_refl)
  next
    case False
    let ?st1 = "image_page env iw ih st"
    let ?e = "Dropped u (y st) (page st) (page ?st1) (y ?st1)"
    let ?st' = "?st1 \<lparr> events := events ?st1 @ [?e] \<rparr>"
    have "run env st ?st' [shape_of ?e]"
      by (rule run_single [where e = ?e])
         (simp_all add: image_page_def break_page_def position_def event_ok_def)
    then show ?thesis using Undrawable False by (simp add: draw_image_def Let_def)
  qed
next
  case (Decoded iw ih)
  show ?thesis
  proof (cases "iw = 0")
    case True
    with Decoded show ?thesis by (simp add: draw_image_def run_refl)
  next
    case False
    let ?st1 = "image_page env iw ih st"
    let ?e = "Picture u iw ih (y st) (page st) (page ?st1) margin
                (fl env (y ?st1 - display_h env iw ih)) (display_w env iw) (display_h env iw ih)
                (fl env (y ?st1 - fl env (display_h env iw ih + 6)))"
    let ?st2 = "?st1 \<lparr> events := events ?st1 @ [?e],
                       y := fl env (y ?st1 - fl env (display_h env iw ih + 6)) \<rparr>"
    have ok: "event_ok env ?e"
      using Decoded False
      by (simp add: event_ok_def image_page_def break_page_def display_w_def display_h_def)
    have pic: "run env st ?st2 [shape_of ?e]"
      by (rule run_single [where e = ?e, OF _ _ ok])
         (simp_all add: image_page_def break_page_def position_def)
    show ?thesis
    proof (cases "caption = []")
      case True
      with pic Decoded False show ?thesis by (simp add: draw_image_def Let_def)
    next
      case cap: False
      have "run env ?st2
              (gap env CaptionLine (gap_of CaptionLine)
                 (draw_lines env CaptionLine (margin + 4) (threshold_of CaptionLine)
                    (advance_of CaptionLine) (text_lines env caption 9)
                    (set_font env CaptionLine (size_of CaptionLine) ?st2)))
              (block_shape CaptionLine (text_lines env caption 9))"
        by (rule block_run)
      from run_trans [OF pic this] Decoded False cap show ?thesis
        by (simp add: draw_image_def Let_def)
    qed
  qed
qed

lemma draw_node_run: "run env st (draw_node env n st) (node_shape env n)"
proof (cases n)
  case (Heading htext tag)
  have "run env st
     (gap env (HeadingLine tag) (gap_of (HeadingLine tag))
        (draw_lines env (HeadingLine tag) margin (threshold_of (HeadingLine tag))
           (advance_of (HeadingLine tag)) (text_lines env htext (size_of (HeadingLine tag)))
           (set_font env (HeadingLine tag) (size_of (HeadingLine tag)) st)))
     (block_shape (HeadingLine tag) (text_lines env htext (size_of (HeadingLine tag))))"
    by (rule block_run)
  then show ?thesis by (simp add: Heading Let_def)
next
  case (Paragraph ptext)
  have "run env st
     (gap env ParagraphLine (gap_of ParagraphLine)
        (draw_lines env ParagraphLine margin (threshold_of ParagraphLine)
           (advance_of ParagraphLine) (text_lines env ptext 11)
           (set_font env ParagraphLine (size_of ParagraphLine) st)))
     (block_shape ParagraphLine (text_lines env ptext 11))"
    by (rule block_run)
  then show ?thesis by (simp add: Paragraph)
next
  case (Image u c)
  show ?thesis unfolding Image draw_node.simps by (rule draw_image_run)
qed

lemma draw_nodes_run: "run env st (draw_nodes env ns st) (concat (map (node_shape env) ns))"
proof (induction ns arbitrary: st)
  case Nil
  then show ?case by (simp add: run_refl)
next
  case (Cons n ns)
  from run_trans [OF draw_node_run Cons.IH] show ?case by simp
qed

lemma draw_title_run:
  "run env st (draw_title env meta st)
     (if title meta \<noteq> [] then block_shape TitleLine (text_lines env (title meta) 18) else [])"
proof (cases "title meta = []")
  case True
  then show ?thesis by (simp add: draw_title_def run_refl)
next
  case False
  have "run env st
     (gap env TitleLine (gap_of TitleLine)
        (draw_lines env TitleLine margin (threshold_of TitleLine) (advance_of TitleLine)
           (text_lines env (title meta) 18) (set_font env TitleLine (size_of TitleLine) st)))
     (block_shape TitleLine (text_lines env (title meta) 18))"
    by (rule block_run)
  then show ?thesis using False by (simp add: draw_title_def)
qed

lemma draw_meta_run:
  "run env st (draw_meta env meta st)
     (if meta_info meta \<noteq> [] then block_shape MetaLine [join ''  |  '' (meta_info meta)] else [])"
proof (cases "meta_info meta = []")
  case True
  then show ?thesis by (simp add: draw_meta_def run_refl)
next
  case False
  have "run env st
     (gap env MetaLine (gap_of MetaLine)
        (draw_lines env MetaLine margin (threshold_of MetaLine) (advance_of MetaLine)
           [join ''  |  '' (meta_info meta)] (set_font env MetaLine (size_of MetaLine) st)))
     (block_shape MetaLine [join ''  |  '' (meta_info meta)])"
    by (rule block_run)
  then show ?thesis using False by (simp add: draw_meta_def)
qed

lemma create_pdf_run:
  "run env (start env) (create_pdf env meta ns) (expected_shape env meta ns)"
  unfolding create_pdf_def expected_shape_def
  using run_trans [OF run_trans [OF draw_title_run draw_meta_run] draw_nodes_run]
  by simp

lemma create_pdf_log:
  "map shape_of (events (create_pdf env meta ns)) = expected_shape env meta ns"
  "replay (top_y env, 0, initial_font, 0) (events (create_pdf env meta ns))
     = Some (position (create_pdf env meta ns))"
  "\<forall>e \<in> set (events (create_pdf env meta ns)). event_ok env e"
proof -
  from create_pdf_run [of env meta ns] obtain new where
    new: "events (create_pdf env meta ns) = events (start env) @ new"
      "replay (position (start env)) new = Some (position (create_pdf env meta ns))"
      "map shape_of new = expected_shape env meta ns" "\<forall>e \<in> set new. event_ok env e"
    unfolding run_def by blast
  have e: "events (create_pdf env meta ns) = new" using new(1) by (simp add: start_def)
  show "map shape_of (events (create_pdf env meta ns)) = expected_shape env meta ns"
    using new(3) e by simp
  show "replay (top_y env, 0, initial_font, 0) (events (create_pdf env meta ns))
     = Some (position (create_pdf env meta ns))"
    using new(2) e by (simp add: start_def position_def)
  show "\<forall>e \<in> set (events (create_pdf env meta ns)). event_ok env e"
    using new(4) e by simp
qed

text \<open>Two roundings within \<open>u\<close> keep a quotient within \<open>2 * u + u * u\<close>.\<close>

lemma two_roundings:
  assumes r: "rounds_within u f" and u: "0 \<le> u" and w: "0 < w" and q: "0 \<le> q"
  shows "\<bar>f (w * f q) / w - q\<bar> \<le> (2 * u + u * u) * q"
proof -
  let ?a = "f q"
  let ?h = "f (w * ?a)"
  have a: "\<bar>?a - q\<bar> \<le> u * q" using r q unfolding rounds_within_def by (metis abs_of_nonneg)
  then have a_le: "\<bar>?a\<bar> \<le> q + u * q" using q by (simp add: abs_le_iff)
  have "\<bar>?h - w * ?a\<bar> \<le> u * \<bar>w * ?a\<bar>" using r unfolding rounds_within_def by blast
  also have "\<dots> = u * w * \<bar>?a\<bar>" using w by (simp add: abs_mult)
  also have "\<dots> \<le> u * w * (q + u * q)"
    using a_le u w by (intro mult_left_mono) simp_all
  finally have h1: "\<bar>?h - w * ?a\<bar> \<le> u * w * (q + u * q)" .
  have "\<bar>w * ?a - w * q\<bar> = w * \<bar>?a - q\<bar>"
    using w by (simp add: right_diff_distrib [symmetric] abs_mult)
  also have "\<dots> \<le> w * (u * q)" using a w by (intro mult_left_mono) simp_all
  finally have h2: "\<bar>w * ?a - w * q\<bar> \<le> w * (u * q)" .
  have "\<bar>?h - w * q\<bar> \<le> \<bar>?h - w * ?a\<bar> + \<bar>w * ?a - w * q\<bar>" by simp
  also have "\<dots> \<le> u * w * (q + u * q) + w * (u * q)" using h1 h2 by simp
  also have "\<dots> = w * ((2 * u + u * u) * q)" by (simp add: algebra_simps)
  finally have h3: "\<bar>?h - w * q\<bar> \<le> w * ((2 * u + u * u) * q)" .
  have "?h / w - q = (?h - w * q) / w" using w by (simp add: field_simps)
  then have "\<bar>?h / w - q\<bar> = \<bar>?h - w * q\<bar> / w" using w by (simp add: abs_divide)
  also have "\<dots> \<le> (w * ((2 * u + u * u) * q)) / w"
    using h3 w by (intro divide_right_mono) simp_all
  also have "\<dots> = (2 * u + u * u) * q" using w by simp
  finally show ?thesis .
qed

section \<open>Rendered traces\<close>

lemmas render_defs =
  create_pdf_def start_def draw_title_def draw_meta_def meta_info_def draw_image_def
  image_page_def display_w_def display_h_def set_font_def break_page_def
  top_y_def margin_def usable_w_def gap_def draw_line_def text_lines_def initial_font_def
  split_text_to_lines_def py_split_def py_strip_def isspace_def
  demo_env_def small_env_def empty_article_def signed_article_def

lemma trace_signed:
  "events (create_pdf demo_env signed_article [])
     = [SetFont TitleLine (''DejaVuSans'', 18),
        Line TitleLine (''DejaVuSans'', 18) 0 28 772 0 0 772 750 ''T'',
        Gap TitleLine 750 744,
        SetFont MetaLine (''DejaVuSans'', 9),
        Line MetaLine (''DejaVuSans'', 9) 0 28 744 0 0 744 728 ''By A'',
        Gap MetaLine 728 722]"
  by (simp add: render_defs)

lemma trace_four_paragraphs:
  "events (create_pdf small_env empty_article four_paragraphs)
     = [SetFont ParagraphLine (''DejaVuSans'', 11),
        Line ParagraphLine (''DejaVuSans'', 11) 0 28 92 0 0 92 79 ''one'',
        Gap ParagraphLine 79 71,
        SetFont ParagraphLine (''DejaVuSans'', 11),
        Line ParagraphLine (''DejaVuSans'', 11) 0 28 71 0 0 71 58 ''two'',
        Gap ParagraphLine 58 50,
        SetFont ParagraphLine (''DejaVuSans'', 11),
        Line ParagraphLine (''DejaVuSans'', 11) 0 28 50 0 0 50 37 ''three'',
        Gap ParagraphLine 37 29,
        SetFont ParagraphLine (''DejaVuSans'', 11),
        Line ParagraphLine (''Helvetica'', 12) 0 28 29 0 1 92 79 ''four'',
        Gap ParagraphLine 79 71]"
  by (simp add: render_defs four_paragraphs_def)

lemma end_four_paragraphs:
  "position (create_pdf small_env empty_article four_paragraphs) = (71, 1, (''Helvetica'', 12), 0)"
  by (simp add: render_defs four_paragraphs_def position_def)

lemma trace_picture:
  "events (create_pdf demo_env empty_article picture_nodes)
     = [Picture ''https://example.org/a.png'' 1200 600 772 0 0 28 500 544 272 494,
        SetFont CaptionLine (''DejaVuSans'', 9),
        Line CaptionLine (''DejaVuSans'', 9) 0 32 494 0 0 494 483 ''A view'',
        Gap CaptionLine 483 477]"
  by (simp add: render_defs picture_nodes_def)

lemma trace_dropped:
  "events (create_pdf demo_env empty_article dropped_nodes)
     = [Dropped ''https://example.org/b.png'' 772 0 1 772]"
  by (simp add: render_defs dropped_nodes_def)

lemma usable_w_strip: "usable_w strip_env = 544"
  by (simp add: usable_w_def margin_def strip_env_def double_rounding_def quotient_49_def)

lemma trace_strip:
  "events (create_pdf strip_env empty_article strip_nodes)
     = [Picture ''https://example.org/strip.png'' 49 1 772 0 0 28 771 49 (1 - 1 / 2 ^ 53) 765]"
  by (simp add: create_pdf_def start_def draw_title_def draw_meta_def meta_info_def
      empty_article_def strip_nodes_def draw_image_def image_page_def display_w_def
      display_h_def usable_w_def top_y_def margin_def strip_env_def double_rounding_def
      quotient_49_def)

lemma double_rounding_within: "rounds_within unit_roundoff double_rounding"
  unfolding rounds_within_def
proof
  fix x :: real
  consider (a) "x = 1 / 49" | (b) "x \<noteq> 1 / 49" "x = 49 * quotient_49"
    | (c) "x \<noteq> 1 / 49" "x \<noteq> 49 * quotient_49" "x = 772 - (1 - 1 / 2 ^ 53)"
    | (d) "x \<noteq> 1 / 49" "x \<noteq> 49 * quotient_49" "x \<noteq> 772 - (1 - 1 / 2 ^ 53)"
          "x = (1 - 1 / 2 ^ 53) + 6"
    | (e) "x \<noteq> 1 / 49" "x \<noteq> 49 * quotient_49" "x \<noteq> 772 - (1 - 1 / 2 ^ 53)"
          "x \<noteq> (1 - 1 / 2 ^ 53) + 6"
    by blast
  then show "\<bar>double_rounding x - x\<bar> \<le> unit_roundoff * \<bar>x\<bar>"
  proof cases
    case a
    then show ?thesis by (simp add: double_rounding_def quotient_49_def unit_roundoff_def)
  next
    case b
    then show ?thesis by (simp add: double_rounding_def quotient_49_def unit_roundoff_def)
  next
    case c
    then show ?thesis by (simp add: double_rounding_def quotient_49_def unit_roundoff_def)
  next
    case d
    then show ?thesis by (simp add: double_rounding_def quotient_49_def unit_roundoff_def)
  next
    case e
    then show ?thesis by (simp add: double_rounding_def unit_roundoff_def)
  qed
qed

lemma break_above_threshold:
  "break_before_line env e \<Longrightarrow> margin + 40 \<le> top_y env \<Longrightarrow> line_above_threshold e"
proof (cases e)
  case (Line k lf sp x yi p0 p1 yd yo s)
  assume "break_before_line env e" "margin + 40 \<le> top_y env"
  moreover have "threshold_of k \<le> margin + 40" by (cases k) simp_all
  ultimately show ?thesis using Line by (auto split: if_splits)
qed simp_all

lemma picture_aspect:
  assumes "picture_scaled env e" "rounds_within unit_roundoff (fl env)" "0 < usable_w env"
  shows "aspect_within unit_roundoff e"
proof (cases e)
  case (Picture u iw ih yi p0 p1 x py w h yo)
  with assms(1) have iw: "0 < iw" and w: "w = min (usable_w env) (real iw)"
    and h: "h = fl env (w * fl env (real ih / real iw))"
    by simp_all
  have wpos: "0 < w" using iw w assms(3) by simp
  have "\<bar>fl env (w * fl env (real ih / real iw)) / w - real ih / real iw\<bar>
          \<le> (2 * unit_roundoff + unit_roundoff * unit_roundoff) * (real ih / real iw)"
    by (rule two_roundings [OF assms(2) _ wpos]) (simp_all add: unit_roundoff_def)
  then show ?thesis using Picture h by simp
qed simp_all

section \<open>Line wrapping keeps the words\<close>

text \<open>
  Claim C10.  For every text, font, font size and maximum width, and whatever the
  width function is, the lines returned by \<^verbatim>\<open>split_text_to_lines\<close>, split on
  whitespace and concatenated, are the whitespace-split words of the text: no word
  is dropped, duplicated or reordered.  No returned line is empty.  A word that is
  too wide wherever it stands (every string holding it as a word is wider than the
  maximum) is returned as a line of its own; so is, when a string is never
  narrower than a part of it, every word that is wider than the maximum.
\<close>

theorem split_text_to_lines_words:
  "concat (map py_split (split_text_to_lines sw text fn fs mw)) = py_split text
   \<and> [] \<notin> set (split_text_to_lines sw text fn fs mw)
   \<and> (\<forall>w \<in> set (py_split text).
        (\<forall>s. w \<in> set (py_split s) \<longrightarrow> mw < sw s fn fs)
          \<longrightarrow> w \<in> set (split_text_to_lines sw text fn fs mw))
   \<and> ((\<forall>u v z. sw v fn fs \<le> sw (u @ v @ z) fn fs) \<longrightarrow>
        (\<forall>w \<in> set (py_split text).
           mw < sw w fn fs \<longrightarrow> w \<in> set (split_text_to_lines sw text fn fs mw)))"
proof -
  obtain L c where run: "wrap_loop (\<lambda>s. sw s fn fs) mw [] [] (py_split text) = (L, c)"
    by (cases "wrap_loop (\<lambda>s. sw s fn fs) mw [] [] (py_split text)")
  have words: "\<forall>w \<in> set (py_split text). is_word w" using py_split_words by blast
  have t0: "trimmed []" by (simp add: trimmed_def)
  from wrap_loop_inv [OF run t0 words]
  have inv: "trimmed c" "[] \<notin> set L" "concat (map py_split L) @ py_split c = py_split text"
    by (simp_all add: py_split_def)
  have res: "split_text_to_lines sw text fn fs mw = (if c \<noteq> [] then L @ [c] else L)"
    by (simp add: split_text_to_lines_def run)
  have c1: "concat (map py_split (split_text_to_lines sw text fn fs mw)) = py_split text"
    using inv(3) by (auto simp: res py_split_def)
  have c2: "[] \<notin> set (split_text_to_lines sw text fn fs mw)"
    using inv(2) by (simp add: res)
  have c3: "w \<in> set (split_text_to_lines sw text fn fs mw)"
    if "w \<in> set (py_split text)" "\<forall>s. w \<in> set (py_split s) \<longrightarrow> mw < sw s fn fs" for w
  proof -
    have "is_word w" using that(1) words by blast
    from wrap_loop_wide [OF run t0 words this] that
    have "w \<in> set L \<or> c = w" by blast
    then show ?thesis using \<open>is_word w\<close> by (auto simp: res is_word_def)
  qed
  have c4: "w \<in> set (split_text_to_lines sw text fn fs mw)"
    if mono: "\<forall>u v z. sw v fn fs \<le> sw (u @ v @ z) fn fs"
      and w: "w \<in> set (py_split text)" "mw < sw w fn fs" for w
  proof -
    have "mw < sw s fn fs" if "w \<in> set (py_split s)" for s
    proof -
      from py_split_infix [OF that] obtain u z where "s = u @ w @ z" by blast
      with mono have "sw w fn fs \<le> sw s fn fs" by simp
      with w(2) show ?thesis by simp
    qed
    with c3 [OF w(1)] show ?thesis by blast
  qed
  from c1 c2 c3 c4 show ?thesis by blast
qed

theorem split_text_to_lines_words_witness:
  "split_text_to_lines (stringWidth demo_env) ''aa bbbbbbbbbb cc'' ''F'' 1 30
     = [''aa'', ''bbbbbbbbbb'', ''cc'']
   \<and> ''bbbbbbbbbb'' \<in> set (py_split ''aa bbbbbbbbbb cc'')
   \<and> ''bbbbbbbbbb'' \<in> set (split_text_to_lines (stringWidth demo_env)
                                   ''aa bbbbbbbbbb cc'' ''F'' 1 30)"
proof -
  have run: "split_text_to_lines (stringWidth demo_env) ''aa bbbbbbbbbb cc'' ''F'' 1 30
     = [''aa'', ''bbbbbbbbbb'', ''cc'']"
    by (simp add: split_text_to_lines_def py_split_def py_strip_def isspace_def demo_env_def)
  have mem: "''bbbbbbbbbb'' \<in> set (py_split ''aa bbbbbbbbbb cc'')"
    by (simp add: py_split_def isspace_def)
  have wide: "\<forall>s. ''bbbbbbbbbb'' \<in> set (py_split s) \<longrightarrow> 30 < stringWidth demo_env s ''F'' 1"
  proof (intro allI impI)
    fix s assume "''bbbbbbbbbb'' \<in> set (py_split s)"
    then have "length ''bbbbbbbbbb'' \<le> length s" by (rule py_split_length)
    then show "30 < stringWidth demo_env s ''F'' 1" by (simp add: demo_env_def)
  qed
  from split_text_to_lines_words [of "stringWidth demo_env" "''aa bbbbbbbbbb cc''" "''F''" 1 30]
    mem wide
  have "''bbbbbbbbbb'' \<in> set (split_text_to_lines (stringWidth demo_env)
                                   ''aa bbbbbbbbbb cc'' ''F'' 1 30)"
    by blast
  with run mem show ?thesis by blast
qed

section \<open>When the rendering fallback is triggered\<close>

text \<open>
  Claim C4, as stated, fails at five inputs.
  \<^item> A markup string of 2000 spaces has no marker and comes from a host that is
    not listed, yet it triggers the fallback: the length that is tested is the
    trimmed one.
  \<^item> With \<^verbatim>\<open>try_playwright_if_needed\<close> off, a markup string of length 50 does
    not trigger the fallback, and the static pair is returned.
  \<^item> A markup string of 500 letters U+00E9 has a trimmed length of 1000 bytes, is
    not empty, has no marker and an unlisted host, yet it triggers the fallback:
    the length is counted in characters.
  \<^item> The host \<^verbatim>\<open>tesla.community.example\<close> is no listed domain and no subdomain of
    one, yet a markup string of 2000 letters from it triggers the fallback: the
    test is whether a listed domain occurs somewhere inside.
  \<^item> The network location \<^verbatim>\<open>facebook.com@example.org\<close> has the host
    \<^verbatim>\<open>example.org\<close>, which is not listed, yet the fallback is triggered: the test
    reads the whole network location, user information included.
\<close>

theorem need_render_blank_markup:
  "length blank_markup = 2000
   \<and> \<not> has_script_marker blank_markup
   \<and> \<not> host_listed (hostname_of ''example.org'')
   \<and> fallback_triggered (static_env blank_markup ''example.org'') ''https://example.org/a'' 20 True
   \<and> length short_markup = 50
   \<and> \<not> fallback_triggered (static_env short_markup ''example.org'') ''https://example.org/a'' 20 False
   \<and> fetch_html (static_env short_markup ''example.org'') ''https://example.org/a'' 20 False
       = Inr (short_markup, ''https://example.org/a'')
   \<and> accented_markup \<noteq> []
   \<and> utf8_length (py_strip accented_markup) = 1000
   \<and> \<not> has_script_marker accented_markup
   \<and> fallback_triggered (static_env accented_markup ''example.org'') ''https://example.org/a'' 20 True
   \<and> length (py_strip plain_markup) = 2000
   \<and> \<not> has_script_marker plain_markup
   \<and> \<not> host_listed (hostname_of ''tesla.community.example'')
   \<and> fallback_triggered (static_env plain_markup ''tesla.community.example'')
         ''https://tesla.community.example/a'' 20 True
   \<and> hostname_of ''facebook.com@example.org'' = ''example.org''
   \<and> fallback_triggered (static_env plain_markup ''facebook.com@example.org'')
         ''https://facebook.com@example.org/a'' 20 True"
proof -
  have a: "\<not> isspace (CHR ''a'')" and e: "\<not> isspace (CHR 0xE9)"
    by (simp_all add: isspace_def)
  have sa: "py_strip plain_markup = plain_markup" "py_strip short_markup = short_markup"
    unfolding plain_markup_def short_markup_def
    by (rule py_strip_trimmed [OF trimmed_replicate [OF a]])+
  have se: "py_strip accented_markup = accented_markup"
    unfolding accented_markup_def by (rule py_strip_trimmed [OF trimmed_replicate [OF e]])
  have ma: "\<not> has_script_marker plain_markup"
    unfolding plain_markup_def by (rule no_marker_in_replicate) (simp add: lower_char_def)
  have me: "\<not> has_script_marker accented_markup"
    unfolding accented_markup_def by (rule no_marker_in_replicate) (simp add: lower_char_def)
  have mb: "\<not> has_script_marker blank_markup"
    unfolding blank_markup_def by (rule no_marker_in_spaces)
  have h1: "\<not> host_listed (hostname_of ''example.org'')"
    and h2: "\<not> host_listed (hostname_of ''tesla.community.example'')"
    and h3: "hostname_of ''facebook.com@example.org'' = ''example.org''"
    by (simp_all add: host_listed_def hostname_of_def js_heavy_sites_def ends_with_def
        py_lower_def lower_char_def)
  have n1: "\<not> netloc_has_listed (Inr ''example.org'')"
    and n2: "netloc_has_listed (Inr ''tesla.community.example'')"
    and n3: "netloc_has_listed (Inr ''facebook.com@example.org'')"
    by (simp_all add: netloc_has_listed_def js_heavy_sites_def py_lower_def lower_char_def)
  have t1: "fallback_triggered (static_env blank_markup ''example.org'')
              ''https://example.org/a'' 20 True"
    by (simp add: triggered_iff [OF static_env_get(1)] needs_rendered_fetch_spec_def
        blank_markup_def py_strip_spaces)
  have t2: "\<not> fallback_triggered (static_env short_markup ''example.org'')
              ''https://example.org/a'' 20 False"
    by (simp add: fallback_triggered_def)
  have f2: "fetch_html (static_env short_markup ''example.org'') ''https://example.org/a'' 20 False
       = Inr (short_markup, ''https://example.org/a'')"
    by (simp add: fetch_html_def static_env_def or_empty_def)
  have le: "length accented_markup = 500" by (simp add: accented_markup_def)
  have t3: "fallback_triggered (static_env accented_markup ''example.org'')
              ''https://example.org/a'' 20 True"
    by (simp add: triggered_iff [OF static_env_get(1)] needs_rendered_fetch_spec_def se le)
  have u3: "utf8_length (py_strip accented_markup) = 1000"
    unfolding se by (simp add: utf8_length_def accented_markup_def sum_list_replicate)
  have t4: "fallback_triggered (static_env plain_markup ''tesla.community.example'')
         ''https://tesla.community.example/a'' 20 True"
    by (simp add: triggered_iff [OF static_env_get(1)] needs_rendered_fetch_spec_def
        static_env_get(2) n2)
  have t5: "fallback_triggered (static_env plain_markup ''facebook.com@example.org'')
         ''https://facebook.com@example.org/a'' 20 True"
    by (simp add: triggered_iff [OF static_env_get(1)] needs_rendered_fetch_spec_def
        static_env_get(2) n3)
  have l: "length blank_markup = 2000" "length short_markup = 50" "accented_markup \<noteq> []"
    "length (py_strip plain_markup) = 2000"
    by (simp_all add: blank_markup_def short_markup_def accented_markup_def sa(1))
       (simp add: plain_markup_def)
  from l mb h1 t1 t2 f2 u3 me t3 ma h2 t4 h3 t5 show ?thesis by blast
qed

text \<open>
  Claim C4, amended.  For every fetched markup string and URL, with
  \<^verbatim>\<open>try_playwright_if_needed\<close> on (its default), the rendering fallback is triggered
  if and only if the markup is empty, or its trimmed length is below 800
  characters, or it contains the case-insensitive substring \<^verbatim>\<open><noscript\<close> or
  \<^verbatim>\<open>javascript required\<close>, or the lower-cased network location of the URL contains
  one of the listed domains; with it off the fallback is never triggered.  The
  result of the fetch is the static pair unless the fallback is triggered and the
  browser returns more than 200 trimmed characters.  In particular, with it on, a
  markup string of length 50 always triggers the fallback path, and a markup string
  of trimmed length at least 800 (2000, say) with no marker and a network location
  that contains no listed domain never does.
\<close>

theorem need_render_policy:
  "session_get env url timeout = Inr (t, u) \<longrightarrow>
     (fallback_triggered env url timeout flag
        \<longleftrightarrow> flag \<and> needs_rendered_fetch_spec t (netloc env url))
     \<and> fetch_html env url timeout flag
         = (if fallback_triggered env url timeout flag
            then (case playwright env url timeout of
                    Inr (rendered, final) \<Rightarrow>
                      if rendered \<noteq> [] \<and> 200 < length (py_strip rendered)
                      then Inr (rendered, final)
                      else Inr (t, if u \<noteq> [] then u else url)
                  | Inl e \<Rightarrow> Inr (t, if u \<noteq> [] then u else url))
            else Inr (t, if u \<noteq> [] then u else url))
     \<and> (flag \<and> length t = 50 \<longrightarrow> fallback_triggered env url timeout flag)
     \<and> (800 \<le> length (py_strip t) \<and> \<not> has_script_marker t
          \<and> \<not> netloc_has_listed (netloc env url)
          \<longrightarrow> \<not> fallback_triggered env url timeout flag)
     \<and> (\<not> flag \<longrightarrow> \<not> fallback_triggered env url timeout flag)"
proof
  assume get: "session_get env url timeout = Inr (t, u)"
  note iff = triggered_iff [OF get, of flag]
  have short: "length t = 50 \<Longrightarrow> length (py_strip t) < 800"
    using length_py_strip [of t] by simp
  have blank: "t = [] \<Longrightarrow> length (py_strip t) < 800" by (simp add: py_strip_def)
  have res: "fetch_html env url timeout flag
         = (if fallback_triggered env url timeout flag
            then (case playwright env url timeout of
                    Inr (rendered, final) \<Rightarrow>
                      if rendered \<noteq> [] \<and> 200 < length (py_strip rendered)
                      then Inr (rendered, final)
                      else Inr (t, if u \<noteq> [] then u else url)
                  | Inl e \<Rightarrow> Inr (t, if u \<noteq> [] then u else url))
            else Inr (t, if u \<noteq> [] then u else url))"
    using get
    by (auto simp: fetch_html_def fallback_triggered_def static_text_def or_empty_def Let_def
             split: sum.splits prod.splits)
  have c: "flag \<and> length t = 50 \<longrightarrow> fallback_triggered env url timeout flag"
    using iff short by (auto simp: needs_rendered_fetch_spec_def)
  have d: "800 \<le> length (py_strip t) \<and> \<not> has_script_marker t
          \<and> \<not> netloc_has_listed (netloc env url)
          \<longrightarrow> \<not> fallback_triggered env url timeout flag"
    using iff blank by (auto simp: needs_rendered_fetch_spec_def)
  have e: "\<not> flag \<longrightarrow> \<not> fallback_triggered env url timeout flag"
    by (simp add: fallback_triggered_def)
  from iff res c d e show
    "(fallback_triggered env url timeout flag
        \<longleftrightarrow> flag \<and> needs_rendered_fetch_spec t (netloc env url))
     \<and> fetch_html env url timeout flag
         = (if fallback_triggered env url timeout flag
            then (case playwright env url timeout of
                    Inr (rendered, final) \<Rightarrow>
                      if rendered \<noteq> [] \<and> 200 < length (py_strip rendered)
                      then Inr (rendered, final)
                      else Inr (t, if u \<noteq> [] then u else url)
                  | Inl e \<Rightarrow> Inr (t, if u \<noteq> [] then u else url))
            else Inr (t, if u \<noteq> [] then u else url))
     \<and> (flag \<and> length t = 50 \<longrightarrow> fallback_triggered env url timeout flag)
     \<and> (800 \<le> length (py_strip t) \<and> \<not> has_script_marker t
          \<and> \<not> netloc_has_listed (netloc env url)
          \<longrightarrow> \<not> fallback_triggered env url timeout flag)
     \<and> (\<not> flag \<longrightarrow> \<not> fallback_triggered env url timeout flag)"
    by blast
qed

theorem need_render_policy_witness:
  "session_get (static_env short_markup ''example.org'') ''https://example.org/a'' 20
     = Inr (short_markup, ''https://example.org/a'')
   \<and> length short_markup = 50
   \<and> fallback_triggered (static_env short_markup ''example.org'') ''https://example.org/a'' 20 True
   \<and> session_get (static_env plain_markup ''example.org'') ''https://example.org/a'' 20
     = Inr (plain_markup, ''https://example.org/a'')
   \<and> 800 \<le> length (py_strip plain_markup)
   \<and> \<not> has_script_marker plain_markup
   \<and> \<not> netloc_has_listed (netloc (static_env plain_markup ''example.org'') ''https://example.org/a'')
   \<and> \<not> fallback_triggered (static_env plain_markup ''example.org'') ''https://example.org/a'' 20 True
   \<and> fetch_html (static_env plain_markup ''example.org'') ''https://example.org/a'' 20 True
       = Inr (plain_markup, ''https://example.org/a'')"
proof -
  let ?url = "''https://example.org/a''"
  have a: "\<not> isspace (CHR ''a'')" by (simp add: isspace_def)
  have g1: "session_get (static_env short_markup ''example.org'') ?url 20
              = Inr (short_markup, ?url)"
    and g2: "session_get (static_env plain_markup ''example.org'') ?url 20
              = Inr (plain_markup, ?url)"
    by (simp_all add: static_env_def)
  have l50: "length short_markup = 50" by (simp add: short_markup_def)
  have len: "800 \<le> length (py_strip plain_markup)"
    unfolding plain_markup_def by (simp add: py_strip_trimmed [OF trimmed_replicate [OF a]])
  have nomark: "\<not> has_script_marker plain_markup"
    unfolding plain_markup_def by (rule no_marker_in_replicate) (simp add: lower_char_def)
  have nl: "\<not> netloc_has_listed (netloc (static_env plain_markup ''example.org'') ?url)"
    using example_org_not_contained by (simp add: static_env_def)
  from need_render_policy [of "static_env short_markup ''example.org''" ?url 20 short_markup ?url True]
    g1 l50
  have first: "fallback_triggered (static_env short_markup ''example.org'') ?url 20 True"
    by blast
  note second = need_render_policy
    [of "static_env plain_markup ''example.org''" ?url 20 plain_markup ?url True]
  from second g2 len nomark nl
  have no: "\<not> fallback_triggered (static_env plain_markup ''example.org'') ?url 20 True"
    by blast
  from second g2 no
  have res: "fetch_html (static_env plain_markup ''example.org'') ?url 20 True
       = Inr (plain_markup, if ?url \<noteq> [] then ?url else ?url)"
    by simp
  then have res': "fetch_html (static_env plain_markup ''example.org'') ?url 20 True
       = Inr (plain_markup, ?url)"
    by simp
  from g1 l50 first g2 len nomark nl no res' show ?thesis by blast
qed

section \<open>The fetcher always returns a pair\<close>

text \<open>
  Claim C5, as stated, fails: when the static request raises, the function does
  not always return empty markup with the original URL.  With the rendering
  fallback enabled and a browser that renders 201 characters, it returns the
  rendered markup and the browser's URL.
\<close>

theorem fetch_html_static_failure_rendered:
  "session_get env_static_fails ''https://example.org/a'' 20 = Inl RequestException
   \<and> fetch_html env_static_fails ''https://example.org/a'' 20 True
       = Inr (rendered_page, ''https://example.org/r'')
   \<and> fetch_html env_static_fails ''https://example.org/a'' 20 True
       \<noteq> Inr ([], ''https://example.org/a'')"
proof -
  have "rendered_page \<noteq> []" "length rendered_page = 201"
    by (simp_all add: rendered_page_def)
  then show ?thesis
    by (simp add: fetch_html_def env_static_fails_def need_render_def or_empty_def
        py_strip_rendered_page)
qed

text \<open>
  Claim C5, amended.  For every URL string, timeout and flag, and whatever the
  network, the URL parser and the browser do, \<^verbatim>\<open>fetch_html\<close> raises nothing and
  returns a pair of markup and URL.  When the static request fails, the pair is the
  rendered markup with the browser's URL if the fallback is enabled and the browser
  returns markup of more than 200 trimmed characters; in every other case it is the
  empty markup with the original URL.
\<close>

theorem fetch_html_never_raises:
  "(\<exists>markup resolved. fetch_html env url timeout flag = Inr (markup, resolved))
   \<and> (\<forall>e. session_get env url timeout = Inl e \<longrightarrow>
         fetch_html env url timeout flag =
           (case playwright env url timeout of
              Inr (rendered, final) \<Rightarrow>
                if flag \<and> rendered \<noteq> [] \<and> 200 < length (py_strip rendered)
                then Inr (rendered, final) else Inr ([], url)
            | Inl e' \<Rightarrow> Inr ([], url)))"
proof -
  have total: "\<exists>markup resolved. fetch_html env url timeout flag = Inr (markup, resolved)"
    by (auto simp: fetch_html_def Let_def split: sum.splits prod.splits)
  have failed: "fetch_html env url timeout flag =
           (case playwright env url timeout of
              Inr (rendered, final) \<Rightarrow>
                if flag \<and> rendered \<noteq> [] \<and> 200 < length (py_strip rendered)
                then Inr (rendered, final) else Inr ([], url)
            | Inl e' \<Rightarrow> Inr ([], url))"
    if "session_get env url timeout = Inl e" for e
  proof -
    have nr: "need_render None (netloc env url)"
      by (simp add: need_render_def split: sum.splits)
    show ?thesis
      using that nr by (auto simp: fetch_html_def or_empty_def Let_def split: sum.splits prod.splits)
  qed
  from total failed show ?thesis by blast
qed

theorem fetch_html_never_raises_witness:
  "session_get env_offline ''https://example.org/a'' 20 = Inl RequestException
   \<and> fetch_html env_offline ''https://example.org/a'' 20 True = Inr ([], ''https://example.org/a'')"
proof -
  have s: "session_get env_offline ''https://example.org/a'' 20 = Inl RequestException"
    by (simp add: env_offline_def)
  from fetch_html_never_raises [of env_offline "''https://example.org/a''" 20 True] s
  have "fetch_html env_offline ''https://example.org/a'' 20 True =
           (case playwright env_offline ''https://example.org/a'' 20 of
              Inr (rendered, final) \<Rightarrow>
                if True \<and> rendered \<noteq> [] \<and> 200 < length (py_strip rendered)
                then Inr (rendered, final) else Inr ([], ''https://example.org/a'')
            | Inl e' \<Rightarrow> Inr ([], ''https://example.org/a''))"
    by blast
  then show ?thesis using s by (simp add: env_offline_def)
qed

section \<open>The composed text of the heading-and-paragraph scenario\<close>

text \<open>
  Claim C1, as stated, fails.  For the node stream of one level-1 heading
  \<^verbatim>\<open>Title\<close> and the paragraph, under the title \<^verbatim>\<open>T\<close> and no other metadata, the
  composed text has the lines: title, blank, blank, upper-cased heading, blank,
  paragraph.  Two blank lines follow the title and no blank line ends the text, so
  the lines are not: title, blank, heading, blank, paragraph, blank.
\<close>

theorem compose_scenario_lines:
  "lines_of (compose (titled ''T'') scenario_nodes)
     = [''T'', [], [], ''TITLE'', [], ''This is a long enough paragraph to pass the filter.'']
   \<and> lines_of (compose (titled ''T'') scenario_nodes)
     \<noteq> [''T'', [], ''TITLE'', [], ''This is a long enough paragraph to pass the filter.'', []]"
  by (simp add: compose_def text_parts_def header_parts_def titled_def scenario_nodes_def
      py_upper_Title py_strip_def isspace_def lines_of_def)

text \<open>
  Claim C1, amended.  For the node stream of one level-1 heading \<^verbatim>\<open>Title\<close> and
  the paragraph, the composed text is the stripped newline-join of: the title line
  and a blank line (when there is a title), the metadata lines that are present, a
  blank line, the upper-cased heading line, a blank line, the paragraph line; the
  blank entry after the last node is stripped away.  With a trimmed, non-empty
  title and no other metadata that is: title, two blank lines, \<^verbatim>\<open>TITLE\<close>, one
  blank line, the paragraph.  In general every node contributes its lines followed
  by one blank entry, so that exactly one blank line separates a node from the
  next.
\<close>

theorem compose_scenario:
  "compose meta scenario_nodes
     = py_strip (join ''\<newline>'' (header_parts meta
         @ [''TITLE'', [], ''This is a long enough paragraph to pass the filter.'']))
   \<and> (t \<noteq> [] \<and> trimmed t \<longrightarrow>
        compose (titled t) scenario_nodes
          = t @ ''\<newline>\<newline>\<newline>TITLE\<newline>\<newline>This is a long enough paragraph to pass the filter.'')
   \<and> text_parts meta ns = header_parts meta @ concat (map (\<lambda>n. node_lines n @ [[]]) ns)
   \<and> join ''\<newline>'' (node_parts (n # m # ns))
        = join ''\<newline>'' (node_lines n) @ ''\<newline>\<newline>'' @ join ''\<newline>'' (node_parts (m # ns))"
proof -
  let ?P = "''This is a long enough paragraph to pass the filter.''"
  have parts: "text_parts meta scenario_nodes = (header_parts meta @ [''TITLE'', [], ?P]) @ [[]]"
    for meta
    by (simp add: text_parts_def scenario_nodes_def py_upper_Title)
  have c1: "compose meta scenario_nodes
     = py_strip (join ''\<newline>'' (header_parts meta @ [''TITLE'', [], ?P]))" for meta
    unfolding compose_def parts
    using join_snoc_empty [of "header_parts meta @ [''TITLE'', [], ?P]" "''\<newline>''"]
      py_strip_snoc_space [OF isspace_newline]
    by simp
  have c2: "compose (titled t) scenario_nodes
          = t @ ''\<newline>\<newline>\<newline>TITLE\<newline>\<newline>This is a long enough paragraph to pass the filter.''"
    if t: "t \<noteq> []" "trimmed t"
  proof -
    have tail: "\<not> isspace (last ''\<newline>\<newline>\<newline>TITLE\<newline>\<newline>This is a long enough paragraph to pass the filter.'')"
      by (simp add: isspace_def)
    have "trimmed (t @ ''\<newline>\<newline>\<newline>TITLE\<newline>\<newline>This is a long enough paragraph to pass the filter.'')"
      using t tail by (simp add: trimmed_def hd_append)
    then have "py_strip (t @ ''\<newline>\<newline>\<newline>TITLE\<newline>\<newline>This is a long enough paragraph to pass the filter.'')
       = t @ ''\<newline>\<newline>\<newline>TITLE\<newline>\<newline>This is a long enough paragraph to pass the filter.''"
      by (rule py_strip_trimmed)
    then show ?thesis
      using t(1) by (simp add: c1 header_parts_def titled_def)
  qed
  have c3: "text_parts meta ns = header_parts meta @ concat (map (\<lambda>n. node_lines n @ [[]]) ns)"
    by (simp add: text_parts_def node_parts_concat)
  have "join ''\<newline>'' (node_lines n @ ([] # node_parts (m # ns)))
        = join ''\<newline>'' (node_lines n) @ ''\<newline>'' @ join ''\<newline>'' ([] # node_parts (m # ns))"
    by (rule join_append) (simp_all add: node_lines_nonempty)
  moreover have "join ''\<newline>'' ([] # node_parts (m # ns)) = ''\<newline>'' @ join ''\<newline>'' (node_parts (m # ns))"
    using node_lines_nonempty [of m] by (cases "node_lines m") simp_all
  ultimately have c4: "join ''\<newline>'' (node_parts (n # m # ns))
        = join ''\<newline>'' (node_lines n) @ ''\<newline>\<newline>'' @ join ''\<newline>'' (node_parts (m # ns))"
    by simp
  from c1 c2 c3 c4 show ?thesis by blast
qed

theorem compose_scenario_witness:
  "''T'' \<noteq> [] \<and> trimmed ''T''
   \<and> compose (titled ''T'') scenario_nodes
       = ''T\<newline>\<newline>\<newline>TITLE\<newline>\<newline>This is a long enough paragraph to pass the filter.''"
proof -
  have t: "''T'' \<noteq> [] \<and> trimmed ''T''" by (simp add: trimmed_def isspace_def)
  with compose_scenario [where t = "''T''" and meta = empty_article and ns = "[]"
      and n = "Paragraph []" and m = "Paragraph []"]
  have "compose (titled ''T'') scenario_nodes
       = ''T'' @ ''\<newline>\<newline>\<newline>TITLE\<newline>\<newline>This is a long enough paragraph to pass the filter.''"
    by blast
  with t show ?thesis by simp
qed

section \<open>The node stream holds no short paragraph and no empty text\<close>

text \<open>
  Claim C2.  For every parsed document, every outcome of the readability step,
  every base URL and every behaviour of \<^verbatim>\<open>urljoin\<close>, when the extraction returns,
  its node stream holds no paragraph whose trimmed text has 10 characters or fewer
  and no heading or paragraph whose trimmed text is empty.
\<close>

theorem node_stream_filtered:
  "extract_more_elements urljoin readability soup base_url = Inr out \<Longrightarrow>
     \<forall>n \<in> set (nodes out). emitted_text_ok n"
proof -
  assume "extract_more_elements urljoin readability soup base_url = Inr out"
  then obtain content where
    "build_nodes urljoin base_url (descendants_with_parent content) [] = Inr (nodes out)"
    using extract_fields(1) by blast
  then show ?thesis by (rule build_nodes_ok) simp
qed

theorem node_stream_filtered_witness:
  "extract_more_elements urljoin_absolute None small_article ''https://example.org/a''
     = Inr \<lparr> title = [], author = [], date = [], tags = [], lead_image = [],
             nodes = [Heading ''News'' ''h1'', Paragraph ''A paragraph that is longenough''] \<rparr>
   \<and> emitted_text_ok (Heading ''News'' ''h1'')
   \<and> emitted_text_ok (Paragraph ''A paragraph that is longenough'')"
proof -
  have run: "extract_more_elements urljoin_absolute None small_article ''https://example.org/a''
     = Inr \<lparr> title = [], author = [], date = [], tags = [], lead_image = [],
             nodes = [Heading ''News'' ''h1'', Paragraph ''A paragraph that is longenough''] \<rparr>"
    by code_simp
  from node_stream_filtered [OF run] run show ?thesis by simp
qed

section \<open>The author field: metadata tags before selectors\<close>

text \<open>
  Claim C8, as stated, fails.  Each of the three documents below holds an
  \<^verbatim>\<open>article:author\<close> meta tag with non-empty content and an element of class
  \<^verbatim>\<open>byline\<close> with the text \<^verbatim>\<open>Carol\<close>.  In the first a meta tag named
  \<^verbatim>\<open>author\<close>, which comes first among the candidates, gives \<^verbatim>\<open>Alice\<close>, and
  the extracted author is \<^verbatim>\<open>Alice\<close>, not \<^verbatim>\<open>Bob\<close>.  In the second the content
  ends with a space and the extracted author is the content trimmed.  In the third
  the content is a single space and the extracted author is the byline.
\<close>

theorem author_not_meta_content:
  "meta_content two_authors_doc ''article:author'' = Some ''Bob''
   \<and> map_option (get_text []) (List.find (has_class ''byline'') (descendants two_authors_doc))
       = Some ''Carol''
   \<and> extract_more_elements urljoin_absolute None two_authors_doc ''https://example.org/a''
       = Inr \<lparr> title = [], author = ''Alice'', date = [], tags = [], lead_image = [],
               nodes = [] \<rparr>
   \<and> ''Alice'' \<noteq> ''Bob''
   \<and> meta_content byline_doc ''article:author'' = Some ''Bob ''
   \<and> extract_more_elements urljoin_absolute None byline_doc ''https://example.org/a''
       = Inr \<lparr> title = [], author = ''Bob'', date = [], tags = [], lead_image = [],
               nodes = [] \<rparr>
   \<and> ''Bob'' \<noteq> ''Bob ''
   \<and> meta_content blank_author_doc ''article:author'' = Some '' ''
   \<and> extract_more_elements urljoin_absolute None blank_author_doc ''https://example.org/a''
       = Inr \<lparr> title = [], author = ''Carol'', date = [], tags = [], lead_image = [],
               nodes = [] \<rparr>
   \<and> ''Carol'' \<noteq> '' ''"
  by code_simp

text \<open>
  Claim C8, amended.  For every document in which the candidate before
  \<^verbatim>\<open>article:author\<close>, the meta tag \<^verbatim>\<open>author\<close>, yields no non-empty content, and
  in which the meta tag found for \<^verbatim>\<open>article:author\<close> (the first one by name, else
  the first one by property) has content that is not blank, the extracted author
  is that content, trimmed, whatever a \<^verbatim>\<open>.byline\<close> element or any other selector
  match holds: the metadata candidates are tried in order before the selector
  fallback and the first one with content wins.
\<close>

theorem author_meta_before_selectors:
  assumes "meta_content soup ''author'' = None"
    and "meta_content soup ''article:author'' = Some c"
    and "py_strip c \<noteq> []"
    and "extract_more_elements urljoin readability soup base_url = Inr out"
  shows "author out = py_strip c"
proof -
  have "first_meta_content soup [''author'', ''article:author'', ''og:article:author'', ''byline'']
        = Some (py_strip c)"
    using assms(1,2) by simp
  then have "extract_author soup = py_strip c"
    using assms(3) by (simp add: extract_author_def truthy_def or_empty_def)
  with extract_fields(2) [OF assms(4)] show ?thesis by simp
qed

theorem author_meta_before_selectors_witness:
  "meta_content byline_doc ''author'' = None
   \<and> meta_content byline_doc ''article:author'' = Some ''Bob ''
   \<and> py_strip ''Bob '' \<noteq> []
   \<and> map_option (get_text []) (List.find (has_class ''byline'') (descendants byline_doc))
       = Some ''Carol''
   \<and> extract_more_elements urljoin_absolute None byline_doc ''https://example.org/a''
       = Inr \<lparr> title = [], author = ''Bob'', date = [], tags = [], lead_image = [],
               nodes = [] \<rparr>
   \<and> author \<lparr> title = [], author = ''Bob'', date = [], tags = [], lead_image = [],
               nodes = [] \<rparr> = py_strip ''Bob ''"
proof -
  have a: "meta_content byline_doc ''author'' = None" by code_simp
  have b: "meta_content byline_doc ''article:author'' = Some ''Bob ''" by code_simp
  have c: "py_strip ''Bob '' \<noteq> []" by code_simp
  have d: "map_option (get_text []) (List.find (has_class ''byline'') (descendants byline_doc))
       = Some ''Carol''" by code_simp
  have run: "extract_more_elements urljoin_absolute None byline_doc ''https://example.org/a''
       = Inr \<lparr> title = [], author = ''Bob'', date = [], tags = [], lead_image = [],
               nodes = [] \<rparr>" by code_simp
  from author_meta_before_selectors [OF a b c run] a b c d run show ?thesis by blast
qed

section \<open>Empty markup degrades to an empty article\<close>

text \<open>
  Claim C9.  When the fetch step returns empty markup, the parsed document is
  empty and the readability step raises, so the heuristic path is taken.  For every
  base URL the extraction then returns an article whose metadata fields are all
  empty strings and whose node stream is empty.  On that article the composer
  returns the empty text and the renderer finishes without drawing anything, with
  the cursor at the top of its first page; neither has a raising path.
\<close>

theorem empty_markup_degrades:
  "extract_more_elements urljoin None empty_soup base_url = Inr empty_article
   \<and> nodes empty_article = []
   \<and> compose empty_article (nodes empty_article) = []
   \<and> create_pdf env empty_article (nodes empty_article)
       = \<lparr> events = [], y = top_y env, page = 0, cfont = initial_font, font_page = 0 \<rparr>"
proof -
  have d: "descendants empty_soup = []"
    by (simp add: descendants_def empty_soup_def)
  have f: "find_tag empty_soup nm = None" "find_meta_by empty_soup a k = None"
    "find_all empty_soup nms = []" for nm a k nms
    by (simp_all add: find_tag_def find_meta_by_def find_all_def d)
  have lead: "extract_lead_image urljoin base_url empty_soup = Inr []"
    by (simp add: extract_lead_image_def f or_empty_def)
  have mc: "first_meta_content empty_soup keys = None" for keys
    by (induction keys) (simp_all add: meta_content_def find_meta_def f)
  have au: "extract_author empty_soup = []"
    by (simp add: extract_author_def mc truthy_def or_empty_def select_author_def d
        del: first_meta_content.simps)
  have da: "extract_date empty_soup = []"
    by (simp add: extract_date_def mc truthy_def or_empty_def f del: first_meta_content.simps)
  have ti: "extract_title empty_soup = []" "extract_tags empty_soup = []"
    by (simp_all add: extract_title_def extract_tags_def f)
  have hc: "heuristic_content empty_soup = empty_soup"
    by (simp add: heuristic_content_def f)
  have dp: "descendants_with_parent empty_soup = []"
    by (simp add: empty_soup_def)
  have e: "extract_more_elements urljoin None empty_soup base_url = Inr empty_article"
    by (simp add: extract_more_elements_def lead au da ti hc dp empty_article_def)
  have c: "compose empty_article [] = []"
    by (simp add: compose_def text_parts_def header_parts_def empty_article_def py_strip_def)
  have p: "create_pdf env empty_article []
       = \<lparr> events = [], y = top_y env, page = 0, cfont = initial_font, font_page = 0 \<rparr>"
    by (simp add: create_pdf_def start_def draw_title_def draw_meta_def meta_info_def
        empty_article_def)
  from e c p show ?thesis by (simp add: empty_article_def)
qed

theorem empty_markup_degrades_witness:
  "extract_more_elements urljoin_absolute None empty_soup ''https://example.org/a''
     = Inr empty_article
   \<and> compose empty_article [] = []
   \<and> events (create_pdf demo_env empty_article []) = []"
  using empty_markup_degrades [of urljoin_absolute "''https://example.org/a''" demo_env]
  by (simp add: empty_article_def)

section \<open>Font sizes, cursor advance and gaps\<close>

text \<open>
  Claim C3, as stated, fails, in two ways.  Not every drawn line moves the cursor
  down by its font size plus 2: for an article with the title \<^verbatim>\<open>T\<close> and the
  author \<^verbatim>\<open>A\<close> the title line is set at 18 points and moves the cursor by 22, and
  the metadata line is set at 9 points and moves it by 16.  And not every text
  element is rendered in the specified size: on a page 120 points high the fourth
  of four one-line paragraphs is drawn after a page break inside its own loop, where
  the canvas has forgotten the font that was set before the loop; the line is in
  Helvetica at 12 points, not in the registered font at 11.
\<close>

theorem title_and_metadata_advance:
  "events (create_pdf demo_env signed_article [])
     = [SetFont TitleLine (''DejaVuSans'', 18),
        Line TitleLine (''DejaVuSans'', 18) 0 28 772 0 0 772 750 ''T'',
        Gap TitleLine 750 744,
        SetFont MetaLine (''DejaVuSans'', 9),
        Line MetaLine (''DejaVuSans'', 9) 0 28 744 0 0 744 728 ''By A'',
        Gap MetaLine 728 722]
   \<and> \<not> advance_is_size_plus_2 (Line TitleLine (''DejaVuSans'', 18) 0 28 772 0 0 772 750 ''T'')
   \<and> \<not> advance_is_size_plus_2 (Line MetaLine (''DejaVuSans'', 9) 0 28 744 0 0 744 728 ''By A'')
   \<and> Line ParagraphLine (''Helvetica'', 12) 0 28 29 0 1 92 79 ''four''
       \<in> set (events (create_pdf small_env empty_article four_paragraphs))
   \<and> \<not> in_specified_size (Line ParagraphLine (''Helvetica'', 12) 0 28 29 0 1 92 79 ''four'')"
  using trace_signed trace_four_paragraphs
  by (simp add: advance_is_size_plus_2_def in_specified_size_def)

text \<open>
  Claim C3, amended.  For every text element the renderer sets the registered font
  at the specified size (title 18, level-1 headings 14, other headings 12,
  paragraphs 11, captions 9, the metadata line 9), draws the wrapped lines of the
  element in order and closes the block with a gap: the log of a run is exactly
  that sequence of calls.  Every line drawn on the page on which its font was set
  is in that font and size.  After each heading, paragraph and caption line the
  cursor is lowered by the font size plus 2, after each title line by 22 and after
  the metadata line by 16.  The gap after the title, the metadata line, a heading
  and a caption is 6, the gap after a paragraph is 8, and after an image the cursor
  is lowered by the drawn height plus 6.  Each of these is one float operation,
  rounded; the events follow one another from the top of the first page to the
  final cursor.
\<close>

theorem font_sizes_and_advances:
  "map shape_of (events (create_pdf env meta ns)) = expected_shape env meta ns
   \<and> replay (top_y env, 0, initial_font, 0) (events (create_pdf env meta ns))
       = Some (position (create_pdf env meta ns))
   \<and> (\<forall>e \<in> set (events (create_pdf env meta ns)). line_metrics env e)"
  using create_pdf_log [of env meta ns] by (simp add: event_ok_def)

theorem font_sizes_and_advances_witness:
  "map shape_of (events (create_pdf small_env empty_article four_paragraphs))
     = [FontS ParagraphLine 11, LineS ParagraphLine ''one'', GapS ParagraphLine,
        FontS ParagraphLine 11, LineS ParagraphLine ''two'', GapS ParagraphLine,
        FontS ParagraphLine 11, LineS ParagraphLine ''three'', GapS ParagraphLine,
        FontS ParagraphLine 11, LineS ParagraphLine ''four'', GapS ParagraphLine]
   \<and> replay (92, 0, (''Helvetica'', 12), 0)
        (events (create_pdf small_env empty_article four_paragraphs))
       = Some (71, 1, (''Helvetica'', 12), 0)
   \<and> line_metrics small_env (Line ParagraphLine (''DejaVuSans'', 11) 0 28 50 0 0 50 37 ''three'')
   \<and> line_metrics small_env (Gap ParagraphLine 37 29)
   \<and> line_metrics small_env (Line ParagraphLine (''Helvetica'', 12) 0 28 29 0 1 92 79 ''four'')"
proof -
  note inst = font_sizes_and_advances [of small_env empty_article four_paragraphs]
  have top: "top_y small_env = 92"
    by (simp add: top_y_def margin_def small_env_def demo_env_def)
  have shp: "map shape_of (events (create_pdf small_env empty_article four_paragraphs))
     = [FontS ParagraphLine 11, LineS ParagraphLine ''one'', GapS ParagraphLine,
        FontS ParagraphLine 11, LineS ParagraphLine ''two'', GapS ParagraphLine,
        FontS ParagraphLine 11, LineS ParagraphLine ''three'', GapS ParagraphLine,
        FontS ParagraphLine 11, LineS ParagraphLine ''four'', GapS ParagraphLine]"
    unfolding trace_four_paragraphs by simp
  have rep: "replay (92, 0, (''Helvetica'', 12), 0)
        (events (create_pdf small_env empty_article four_paragraphs))
       = Some (71, 1, (''Helvetica'', 12), 0)"
    using inst by (simp add: top end_four_paragraphs initial_font_def)
  have m: "Line ParagraphLine (''DejaVuSans'', 11) 0 28 50 0 0 50 37 ''three''
             \<in> set (events (create_pdf small_env empty_article four_paragraphs))"
    "Gap ParagraphLine 37 29 \<in> set (events (create_pdf small_env empty_article four_paragraphs))"
    "Line ParagraphLine (''Helvetica'', 12) 0 28 29 0 1 92 79 ''four''
             \<in> set (events (create_pdf small_env empty_article four_paragraphs))"
    unfolding trace_four_paragraphs by simp_all
  from inst have all: "\<forall>e \<in> set (events (create_pdf small_env empty_article four_paragraphs)).
                        line_metrics small_env e"
    by blast
  from m [THEN all [THEN bspec]] shp rep show ?thesis by blast
qed

section \<open>Page breaks come before a line\<close>

text \<open>
  Claim C6.  For every page size, rounding, width function, article and node
  stream, every wrapped line of the title, the metadata, the headings, the
  paragraphs and the captions of drawn images is drawn by exactly one call, in
  stream order, on one page: the log of a run is exactly that sequence of calls,
  and the events follow one another from the top of the first page to the final
  cursor and page.  When the cursor is below the threshold of the line, the page is
  broken before the line is drawn and the line is drawn at the top margin of the
  new page; when it is not, the line is drawn where the cursor stands, on the
  current page; the cursor then moves below the line.  On a page tall enough to
  hold the title threshold (\<^verbatim>\<open>margin + 40\<close> at most the top), every line is drawn at
  or above its threshold.
\<close>

theorem page_break_before_line:
  "map shape_of (events (create_pdf env meta ns)) = expected_shape env meta ns
   \<and> replay (top_y env, 0, initial_font, 0) (events (create_pdf env meta ns))
       = Some (position (create_pdf env meta ns))
   \<and> (\<forall>e \<in> set (events (create_pdf env meta ns)).
         break_before_line env e \<and> (margin + 40 \<le> top_y env \<longrightarrow> line_above_threshold e))"
  using create_pdf_log [of env meta ns] break_above_threshold [of env]
  by (simp add: event_ok_def)

theorem page_break_before_line_witness:
  "margin + 40 \<le> top_y small_env
   \<and> map shape_of (events (create_pdf small_env empty_article four_paragraphs))
     = [FontS ParagraphLine 11, LineS ParagraphLine ''one'', GapS ParagraphLine,
        FontS ParagraphLine 11, LineS ParagraphLine ''two'', GapS ParagraphLine,
        FontS ParagraphLine 11, LineS ParagraphLine ''three'', GapS ParagraphLine,
        FontS ParagraphLine 11, LineS ParagraphLine ''four'', GapS ParagraphLine]
   \<and> page (create_pdf small_env empty_article four_paragraphs) = 1
   \<and> break_before_line small_env
        (Line ParagraphLine (''DejaVuSans'', 11) 0 28 50 0 0 50 37 ''three'')
   \<and> line_above_threshold (Line ParagraphLine (''DejaVuSans'', 11) 0 28 50 0 0 50 37 ''three'')
   \<and> break_before_line small_env
        (Line ParagraphLine (''Helvetica'', 12) 0 28 29 0 1 92 79 ''four'')
   \<and> line_above_threshold (Line ParagraphLine (''Helvetica'', 12) 0 28 29 0 1 92 79 ''four'')"
proof -
  let ?three = "Line ParagraphLine (''DejaVuSans'', 11) 0 28 50 0 0 50 37 ''three''"
  let ?four = "Line ParagraphLine (''Helvetica'', 12) 0 28 29 0 1 92 79 ''four''"
  note inst = page_break_before_line [of small_env empty_article four_paragraphs]
  have tall: "margin + 40 \<le> top_y small_env"
    by (simp add: margin_def top_y_def small_env_def demo_env_def)
  have shp: "map shape_of (events (create_pdf small_env empty_article four_paragraphs))
     = [FontS ParagraphLine 11, LineS ParagraphLine ''one'', GapS ParagraphLine,
        FontS ParagraphLine 11, LineS ParagraphLine ''two'', GapS ParagraphLine,
        FontS ParagraphLine 11, LineS ParagraphLine ''three'', GapS ParagraphLine,
        FontS ParagraphLine 11, LineS ParagraphLine ''four'', GapS ParagraphLine]"
    unfolding trace_four_paragraphs by simp
  have pg: "page (create_pdf small_env empty_article four_paragraphs) = 1"
    using end_four_paragraphs by (simp add: position_def)
  have m3: "?three \<in> set (events (create_pdf small_env empty_article four_paragraphs))"
    and m4: "?four \<in> set (events (create_pdf small_env empty_article four_paragraphs))"
    unfolding trace_four_paragraphs by simp_all
  from inst have all: "\<forall>e \<in> set (events (create_pdf small_env empty_article four_paragraphs)).
      break_before_line small_env e
      \<and> (margin + 40 \<le> top_y small_env \<longrightarrow> line_above_threshold e)"
    by blast
  from bspec [OF all m3] bspec [OF all m4] tall shp pg show ?thesis by blast
qed

section \<open>Image scaling\<close>

text \<open>
  Claim C7.  For every page size, rounding, article and node stream, every image
  of the stream that is downloaded, decoded with pixel size \<open>(iw, ih)\<close> and drawn
  appears in the log as one drawing, in stream order, with that pixel size: the log
  of a run is exactly the expected sequence of calls, and the events follow one
  another to the final cursor.  The drawn width is the smaller of the usable page
  width and \<open>iw\<close>, so it never exceeds the pixel width.  The drawn height is the
  float product of the drawn width and the float quotient of \<open>ih\<close> and \<open>iw\<close>.
  When each float operation rounds within the unit roundoff of the doubles,
  \<open>1 / 2 ^ 53\<close>, on a page wider than its two margins, the drawn height over the
  drawn width differs from \<open>ih\<close> over \<open>iw\<close> by at most \<open>2 * u + u * u\<close> times that
  ratio.
\<close>

theorem image_scaling:
  "map shape_of (events (create_pdf env meta ns)) = expected_shape env meta ns
   \<and> replay (top_y env, 0, initial_font, 0) (events (create_pdf env meta ns))
       = Some (position (create_pdf env meta ns))
   \<and> (\<forall>e \<in> set (events (create_pdf env meta ns)).
         picture_scaled env e
         \<and> (rounds_within unit_roundoff (fl env) \<and> 0 < usable_w env
              \<longrightarrow> aspect_within unit_roundoff e))"
  using create_pdf_log [of env meta ns] picture_aspect [of env]
  by (simp add: event_ok_def)

theorem image_scaling_witness:
  "rounds_within unit_roundoff (fl strip_env) \<and> 0 < usable_w strip_env
   \<and> map shape_of (events (create_pdf strip_env empty_article strip_nodes))
       = [PictureS ''https://example.org/strip.png'']
   \<and> picture_scaled strip_env
        (Picture ''https://example.org/strip.png'' 49 1 772 0 0 28 771 49 (1 - 1 / 2 ^ 53) 765)
   \<and> aspect_within unit_roundoff
        (Picture ''https://example.org/strip.png'' 49 1 772 0 0 28 771 49 (1 - 1 / 2 ^ 53) 765)
   \<and> map shape_of (events (create_pdf demo_env empty_article picture_nodes))
       = [PictureS ''https://example.org/a.png'', FontS CaptionLine 9,
          LineS CaptionLine ''A view'', GapS CaptionLine]
   \<and> picture_scaled demo_env
        (Picture ''https://example.org/a.png'' 1200 600 772 0 0 28 500 544 272 494)
   \<and> map shape_of (events (create_pdf demo_env empty_article dropped_nodes))
       = [DroppedS ''https://example.org/b.png'']"
proof -
  let ?pic = "Picture ''https://example.org/strip.png'' 49 1 772 0 0 28 771 49 (1 - 1 / 2 ^ 53) 765"
  let ?view = "Picture ''https://example.org/a.png'' 1200 600 772 0 0 28 500 544 272 494"
  note inst = image_scaling [of strip_env empty_article strip_nodes]
  note inst2 = image_scaling [of demo_env empty_article picture_nodes]
  have r: "rounds_within unit_roundoff (fl strip_env)"
    using double_rounding_within by (simp add: strip_env_def)
  have wide: "0 < usable_w strip_env" by (simp add: usable_w_strip)
  have shp: "map shape_of (events (create_pdf strip_env empty_article strip_nodes))
       = [PictureS ''https://example.org/strip.png'']"
    unfolding trace_strip by simp
  have m: "?pic \<in> set (events (create_pdf strip_env empty_article strip_nodes))"
    unfolding trace_strip by simp
  from inst have all: "\<forall>e \<in> set (events (create_pdf strip_env empty_article strip_nodes)).
         picture_scaled strip_env e
         \<and> (rounds_within unit_roundoff (fl strip_env) \<and> 0 < usable_w strip_env
              \<longrightarrow> aspect_within unit_roundoff e)"
    by blast
  have shp2: "map shape_of (events (create_pdf demo_env empty_article picture_nodes))
       = [PictureS ''https://example.org/a.png'', FontS CaptionLine 9,
          LineS CaptionLine ''A view'', GapS CaptionLine]"
    unfolding trace_picture by simp
  have m2: "?view \<in> set (events (create_pdf demo_env empty_article picture_nodes))"
    unfolding trace_picture by simp
  from inst2 have all2: "\<forall>e \<in> set (events (create_pdf demo_env empty_article picture_nodes)).
         picture_scaled demo_env e
         \<and> (rounds_within unit_roundoff (fl demo_env) \<and> 0 < usable_w demo_env
              \<longrightarrow> aspect_within unit_roundoff e)"
    by blast
  have shp3: "map shape_of (events (create_pdf demo_env empty_article dropped_nodes))
       = [DroppedS ''https://example.org/b.png'']"
    unfolding trace_dropped by simp
  from bspec [OF all m] bspec [OF all2 m2] r wide shp shp2 shp3 show ?thesis by blast
qed


end
